theory Spec2Isabelle
  imports Main "HOL-Library.AList"
begin

chapter \<open>The model\<close>

section \<open>Values, dictionaries and errors\<close>

text \<open>
  The parser works on the trees that the loader produces: strings, numbers, lists and
  dictionaries with string keys.  A dictionary is an association list in iteration
  order; \<open>map_of\<close> is the lookup and \<open>AList.update\<close> the assignment \<open>d[k] = v\<close>.
\<close>

datatype yval =
    YNone
  | YBool bool
  | YInt int
  | YStr string
  | YList "yval list"
  | YDict "(string \<times> yval) list"

type_synonym ydict = "(string \<times> yval) list"

text \<open>
  Exceptions are values.  \<open>DSLParsingLogicException code args\<close> carries the numeric code
  and the structured data of the exception (the attributes set on it, or the arguments
  formatted into its message); \<open>KeyError k\<close> is a failed dictionary subscript, and
  \<open>TypeError\<close> and \<open>AttributeError\<close> are an operation on a value of the wrong type.
\<close>

datatype error =
    DSLParsingLogicException int "string list"
  | KeyError string
  | TypeError string
  | AttributeError string
  | RuntimeError "string list"

section \<open>The plugin binder\<close>

text \<open>
  The module \<open>constants\<close> is not among the sources, so the four names the binder reads
  from it are parameters of the model.
\<close>

record script_constants =
  SCRIPT_PLUGIN_NAME :: string
  SCRIPT_PATH_PROPERTY :: string
  SCRIPT_PLUGIN_RUN_TASK :: string
  SCRIPT_PLUGIN_EXECUTE_WORKFLOW_TASK :: string

text \<open>
  An operation is either a string or a dictionary; the binder reads at most the fields
  \<open>implementation\<close> and \<open>inputs\<close> (operations) or \<open>mapping\<close> and \<open>parameters\<close>
  (workflows) of the dictionary.  A field is \<open>None\<close> when the key is absent.
\<close>

record operation_spec =
  spec_implementation :: "string option"
  spec_inputs :: "ydict option"
  spec_mapping :: "string option"
  spec_parameters :: "ydict option"

datatype operation_content = OpStr string | OpDict operation_spec

text \<open>
  The dictionary \<open>{'plugin': .., 'operation': .., <field>: ..}\<close> built by
  \<open>_operation_struct\<close>; the last entry exists only when the properties are not \<open>None\<close>
  and is kept with the name of its key.
\<close>

record op_struct =
  os_plugin :: string
  os_operation :: string
  os_properties :: "(string \<times> ydict) option"

text \<open>The named tuple \<open>OpDescriptor\<close>; its \<open>plugin\<close> is \<open>''\<close> or a plugin dictionary.\<close>

record op_descriptor =
  od_plugin :: yval
  od_op_struct :: op_struct
  od_name :: string

definition operation_struct :: "string \<Rightarrow> string \<Rightarrow> ydict option \<Rightarrow> string \<Rightarrow> op_struct" where
  "operation_struct plugin_name operation_mapping operation_properties properties_field_name =
     \<lparr>os_plugin = plugin_name,
      os_operation = operation_mapping,
      os_properties =
        (case operation_properties of
           None \<Rightarrow> None
         | Some props \<Rightarrow> Some (properties_field_name, props))\<rparr>"

text \<open>Python's truth value of an object.\<close>

fun truthy :: "yval \<Rightarrow> bool" where
  "truthy YNone = False"
| "truthy (YBool b) = b"
| "truthy (YInt i) = (i \<noteq> 0)"
| "truthy (YStr s) = (s \<noteq> [])"
| "truthy (YList xs) = (xs \<noteq> [])"
| "truthy (YDict d) = (d \<noteq> [])"

definition startswith :: "string \<Rightarrow> string \<Rightarrow> bool" where
  "startswith s p = (take (length p) s = p)"

text \<open>
  The loop over \<open>plugin_names\<close>; the state is the pair
  \<open>(longest_prefix, longest_prefix_plugin_name)\<close>.
\<close>

fun longest_prefix_loop ::
  "string \<Rightarrow> string list \<Rightarrow> nat \<times> string option \<Rightarrow> nat \<times> string option" where
  "longest_prefix_loop operation_mapping [] st = st"
| "longest_prefix_loop operation_mapping (plugin_name # rest) (longest_prefix, longest_name) =
     (if startswith operation_mapping (plugin_name @ ''.'')
         \<and> length plugin_name > longest_prefix
      then longest_prefix_loop operation_mapping rest (length plugin_name, Some plugin_name)
      else longest_prefix_loop operation_mapping rest (longest_prefix, longest_name))"

text \<open>
  \<open>resource_exists\<close> stands for \<open>_resource_exists\<close>, which probes a URL; \<open>resource_base\<close>
  is \<open>None\<close> or a string, and Python's \<open>resource_base and ...\<close> also rejects the empty
  string.  The arguments of an exception's message are kept in the order
  mapping, operation name, kind, context.
\<close>

definition extract_plugin_name_and_operation_mapping_from_operation ::
  "script_constants \<Rightarrow> (string \<Rightarrow> string \<Rightarrow> bool) \<Rightarrow> ydict \<Rightarrow> string list \<Rightarrow> string \<Rightarrow>
   operation_content \<Rightarrow> int \<Rightarrow> string \<Rightarrow> string option \<Rightarrow> bool \<Rightarrow> error + op_descriptor" where
  "extract_plugin_name_and_operation_mapping_from_operation consts resource_exists plugins
     plugin_names operation_name operation_content error_code partial_error_message
     resource_base is_workflows =
    (let payload_field_name = (if is_workflows then ''parameters'' else ''inputs'');
         kind = (if is_workflows then ''workflow'' else ''operation'');
         operation_mapping =
           (case operation_content of
              OpStr s \<Rightarrow> s
            | OpDict d \<Rightarrow>
                (case (if is_workflows then spec_mapping d else spec_implementation d) of
                   None \<Rightarrow> ''''
                 | Some s \<Rightarrow> s));
         operation_payload =
           (case operation_content of
              OpStr s \<Rightarrow> None
            | OpDict d \<Rightarrow>
                (case (if is_workflows then spec_parameters d else spec_inputs d) of
                   None \<Rightarrow> Some []
                 | Some p \<Rightarrow> Some p))
     in
     if operation_mapping = [] then
       Inr \<lparr>od_plugin = YStr '''',
            od_op_struct = operation_struct '''' '''' (Some []) payload_field_name,
            od_name = operation_name\<rparr>
     else
       (case longest_prefix_loop operation_mapping plugin_names (0, None) of
          (longest_prefix, Some longest_prefix_plugin_name) \<Rightarrow>
            (case map_of plugins longest_prefix_plugin_name of
               None \<Rightarrow> Inl (KeyError longest_prefix_plugin_name)
             | Some plugin \<Rightarrow>
                 Inr \<lparr>od_plugin = plugin,
                      od_op_struct =
                        operation_struct longest_prefix_plugin_name
                          (drop (longest_prefix + 1) operation_mapping)
                          operation_payload payload_field_name,
                      od_name = operation_name\<rparr>)
        | (longest_prefix, None) \<Rightarrow>
            if (case resource_base of
                  None \<Rightarrow> False
                | Some rb \<Rightarrow> rb \<noteq> [] \<and> resource_exists rb operation_mapping)
            then
              (let payload0 = (case operation_payload of None \<Rightarrow> [] | Some p \<Rightarrow> p) in
               if SCRIPT_PATH_PROPERTY consts \<in> fst ` set payload0 then
                 Inl (DSLParsingLogicException 60
                        [SCRIPT_PATH_PROPERTY consts, operation_mapping, kind, operation_name])
               else
                 (let script_path = operation_mapping;
                      operation_mapping' =
                        (if is_workflows then SCRIPT_PLUGIN_EXECUTE_WORKFLOW_TASK consts
                         else SCRIPT_PLUGIN_RUN_TASK consts);
                      payload1 =
                        (if is_workflows then
                           AList.update (SCRIPT_PATH_PROPERTY consts)
                             (YDict [(''default'', YStr script_path),
                                     (''description'',
                                      YStr ''Workflow script executed by the script plugin'')])
                             payload0
                         else
                           AList.update (SCRIPT_PATH_PROPERTY consts) (YStr script_path) payload0)
                  in
                  (case map_of plugins (SCRIPT_PLUGIN_NAME consts) of
                     None \<Rightarrow>
                       Inl (DSLParsingLogicException 61 [operation_mapping', kind, operation_name])
                   | Some plugin \<Rightarrow>
                       Inr \<lparr>od_plugin = plugin,
                            od_op_struct =
                              operation_struct (SCRIPT_PLUGIN_NAME consts) operation_mapping'
                                (Some payload1) payload_field_name,
                            od_name = operation_name\<rparr>)))
            else
              Inl (DSLParsingLogicException error_code
                     [operation_mapping, operation_name, kind, partial_error_message])))"

section \<open>Workflows\<close>

text \<open>
  \<open>_process_workflows\<close>: the loop over \<open>workflows.items()\<close>, the accumulator being
  \<open>processed_workflows\<close>.
\<close>

fun process_workflows_loop ::
  "script_constants \<Rightarrow> (string \<Rightarrow> string \<Rightarrow> bool) \<Rightarrow> (string \<times> operation_content) list \<Rightarrow>
   ydict \<Rightarrow> string list \<Rightarrow> string option \<Rightarrow> (string \<times> op_struct) list \<Rightarrow>
   error + (string \<times> op_struct) list" where
  "process_workflows_loop consts resource_exists [] plugins plugin_names resource_base
     processed_workflows = Inr processed_workflows"
| "process_workflows_loop consts resource_exists ((name, mapping) # rest) plugins plugin_names
     resource_base processed_workflows =
     (case extract_plugin_name_and_operation_mapping_from_operation consts resource_exists
             plugins plugin_names name mapping 21 '''' resource_base True of
        Inl e \<Rightarrow> Inl e
      | Inr op_descriptor \<Rightarrow>
          process_workflows_loop consts resource_exists rest plugins plugin_names resource_base
            (AList.update name (od_op_struct op_descriptor) processed_workflows))"

definition process_workflows ::
  "script_constants \<Rightarrow> (string \<Rightarrow> string \<Rightarrow> bool) \<Rightarrow> (string \<times> operation_content) list \<Rightarrow>
   ydict \<Rightarrow> string option \<Rightarrow> error + (string \<times> op_struct) list" where
  "process_workflows consts resource_exists workflows plugins resource_base =
     process_workflows_loop consts resource_exists workflows plugins (map fst plugins)
       resource_base []"

text \<open>
  \<open>_create_plan_workflow_plugins\<close>: the state of the loop is
  \<open>(workflow_plugins, workflow_plugin_names)\<close>; \<open>plugins[plugin_name]\<close> raises
  \<open>KeyError\<close> on a name that is not declared.
\<close>

fun create_plan_workflow_plugins_loop ::
  "(string \<times> op_struct) list \<Rightarrow> ydict \<Rightarrow> yval list \<times> string set \<Rightarrow> error + yval list" where
  "create_plan_workflow_plugins_loop [] plugins (workflow_plugins, workflow_plugin_names) =
     Inr workflow_plugins"
| "create_plan_workflow_plugins_loop ((workflow, op_struct) # rest) plugins
     (workflow_plugins, workflow_plugin_names) =
     (if os_plugin op_struct \<notin> workflow_plugin_names then
        (let plugin_name = os_plugin op_struct in
         case map_of plugins plugin_name of
           None \<Rightarrow> Inl (KeyError plugin_name)
         | Some plugin \<Rightarrow>
             create_plan_workflow_plugins_loop rest plugins
               (workflow_plugins @ [plugin], insert plugin_name workflow_plugin_names))
      else create_plan_workflow_plugins_loop rest plugins (workflow_plugins, workflow_plugin_names))"

definition create_plan_workflow_plugins ::
  "(string \<times> op_struct) list \<Rightarrow> ydict \<Rightarrow> error + yval list" where
  "create_plan_workflow_plugins workflows plugins =
     create_plan_workflow_plugins_loop workflows plugins ([], {})"

section \<open>Type hierarchies\<close>

text \<open>
  Interfaces are a dictionary from interface names to dictionaries from operation names
  to operations.  A node type or relationship type is a dictionary of which the parser
  reads the keys below; a field is \<open>None\<close> when the key is absent.
\<close>

type_synonym interfaces_dict = "(string \<times> (string \<times> operation_content) list) list"

record dsl_type =
  derived_from :: "string option"
  type_properties :: "ydict option"
  type_interfaces :: "interfaces_dict option"
  type_source_interfaces :: "interfaces_dict option"
  type_target_interfaces :: "interfaces_dict option"

type_synonym types_dict = "(string \<times> dsl_type) list"

text \<open>
  \<open>_create_type_hierarchy\<close> and \<open>_is_derived_from\<close> recurse along \<open>derived_from\<close> with no
  cycle detection, and each call is a frame of the interpreter.  The interpreter bounds
  the depth of its stack and raises \<open>RuntimeError\<close> (maximum recursion depth exceeded) at
  the call that would pass the bound.  The first argument \<open>frames\<close> of a recursive
  function is the number of frames that the interpreter can still push when the
  function is called; a function that calls one of them takes the number of frames that
  are left while its own body runs, and its calls of a fixed depth are taken to fit.
\<close>

definition maximum_recursion_depth_exceeded :: error where
  "maximum_recursion_depth_exceeded = RuntimeError [''maximum recursion depth exceeded'']"

fun create_type_hierarchy :: "nat \<Rightarrow> string \<Rightarrow> types_dict \<Rightarrow> error + string list" where
  "create_type_hierarchy 0 type_name types = Inl maximum_recursion_depth_exceeded"
| "create_type_hierarchy (Suc frames) type_name types =
     (case map_of types type_name of
        None \<Rightarrow> Inl (KeyError type_name)
      | Some current_type \<Rightarrow>
          (case derived_from current_type of
             Some parent_type_name \<Rightarrow>
               (case create_type_hierarchy frames parent_type_name types of
                  Inl e \<Rightarrow> Inl e
                | Inr types_hierarchy \<Rightarrow> Inr (types_hierarchy @ [type_name]))
           | None \<Rightarrow> Inr [type_name]))"

fun is_derived_from :: "nat \<Rightarrow> string \<Rightarrow> types_dict \<Rightarrow> string \<Rightarrow> error + bool" where
  "is_derived_from 0 type_name types derived_from_name =
     Inl maximum_recursion_depth_exceeded"
| "is_derived_from (Suc frames) type_name types derived_from_name =
     (if type_name = derived_from_name then Inr True
      else (case map_of types type_name of
              None \<Rightarrow> Inl (KeyError type_name)
            | Some t \<Rightarrow>
                (case derived_from t of
                   Some parent \<Rightarrow> is_derived_from frames parent types derived_from_name
                 | None \<Rightarrow> Inr False)))"

text \<open>
  \<open>hierarchy_depth types type_name k\<close>: the derivation chain of the type is finite and
  acyclic, it ends in a declared type without \<open>derived_from\<close>, and \<open>k\<close> types are on it.
\<close>

inductive hierarchy_depth :: "types_dict \<Rightarrow> string \<Rightarrow> nat \<Rightarrow> bool" where
  root: "map_of types type_name = Some t \<Longrightarrow> derived_from t = None
         \<Longrightarrow> hierarchy_depth types type_name (Suc 0)"
| derived: "map_of types type_name = Some t \<Longrightarrow> derived_from t = Some parent
         \<Longrightarrow> hierarchy_depth types parent k
         \<Longrightarrow> hierarchy_depth types type_name (Suc k)"

code_pred hierarchy_depth .

definition example_type :: "string option \<Rightarrow> dsl_type" where
  "example_type parent =
     \<lparr>derived_from = parent, type_properties = None, type_interfaces = None,
      type_source_interfaces = None, type_target_interfaces = None\<rparr>"

section \<open>Nodes and relationship instances\<close>

text \<open>
  A relationship instance and a processed node are dictionaries with the keys below; a
  field of option type is \<open>None\<close> when the key is absent.  Reading an absent key raises
  \<open>KeyError\<close>.
\<close>

type_synonym operations_dict = "(string \<times> op_struct) list"

record relationship =
  r_type :: string
  r_target :: "string option"
  r_target_id :: "string option"
  r_source_interfaces :: "interfaces_dict option"
  r_target_interfaces :: "interfaces_dict option"
  r_properties :: "ydict option"
  r_state :: "string option"
  r_base :: "string option"
  r_type_hierarchy :: "string list option"
  r_source_operations :: "operations_dict option"
  r_target_operations :: "operations_dict option"

record node =
  n_name :: string
  n_id :: string
  n_declared_type :: string
  n_type :: string
  n_properties :: ydict
  n_plugins :: "ydict option"
  n_operations :: "operations_dict option"
  n_relationships :: "relationship list option"
  n_instances :: yval
  n_type_hierarchy :: "string list option"
  n_host_id :: "string option"

section \<open>Operations of a node or relationship\<close>

text \<open>
  \<open>_extract_plugin_names_and_operation_mapping_from_interface\<close>: the loop over
  \<open>interface.items()\<close> with the accumulator \<open>result\<close>.
\<close>

fun extract_from_interface_loop ::
  "script_constants \<Rightarrow> (string \<Rightarrow> string \<Rightarrow> bool) \<Rightarrow> (string \<times> operation_content) list \<Rightarrow>
   ydict \<Rightarrow> string list \<Rightarrow> int \<Rightarrow> string \<Rightarrow> string option \<Rightarrow> op_descriptor list \<Rightarrow>
   error + op_descriptor list" where
  "extract_from_interface_loop consts resource_exists [] plugins plugin_names error_code
     partial_error_message resource_base result = Inr result"
| "extract_from_interface_loop consts resource_exists ((operation_name, operation_content) # rest)
     plugins plugin_names error_code partial_error_message resource_base result =
     (case extract_plugin_name_and_operation_mapping_from_operation consts resource_exists
             plugins plugin_names operation_name operation_content error_code
             partial_error_message resource_base False of
        Inl e \<Rightarrow> Inl e
      | Inr op_descriptor \<Rightarrow>
          extract_from_interface_loop consts resource_exists rest plugins plugin_names
            error_code partial_error_message resource_base (result @ [op_descriptor]))"

definition extract_plugin_names_and_operation_mapping_from_interface ::
  "script_constants \<Rightarrow> (string \<Rightarrow> string \<Rightarrow> bool) \<Rightarrow> (string \<times> operation_content) list \<Rightarrow>
   ydict \<Rightarrow> int \<Rightarrow> string \<Rightarrow> string option \<Rightarrow> error + op_descriptor list" where
  "extract_plugin_names_and_operation_mapping_from_interface consts resource_exists interface
     plugins error_code partial_error_message resource_base =
     extract_from_interface_loop consts resource_exists interface plugins (map fst plugins)
       error_code partial_error_message resource_base []"

text \<open>
  The table \<open>operations\<close> of \<open>_process_context_operations\<close> maps a name to an operation
  structure or to \<open>None\<close>.  \<open>record_operation\<close> is the three assignments that the inner
  loop makes to it for one operation.
\<close>

type_synonym operations_table = "(string \<times> op_struct option) list"

definition record_operation ::
  "string \<Rightarrow> string \<Rightarrow> op_struct \<Rightarrow> operations_table \<Rightarrow> operations_table" where
  "record_operation interface_name operation_name op_struct operations =
     AList.update (interface_name @ ''.'' @ operation_name) (Some op_struct)
       (if operation_name \<in> fst ` set operations
        then AList.update operation_name None operations
        else AList.update operation_name (Some op_struct) operations)"

fun context_operations_inner ::
  "string \<Rightarrow> op_descriptor list \<Rightarrow> operations_table \<times> node \<Rightarrow>
   error + operations_table \<times> node" where
  "context_operations_inner interface_name [] st = Inr st"
| "context_operations_inner interface_name (op_descriptor # rest) (operations, node) =
     (let op_struct = od_op_struct op_descriptor;
          plugin_name = os_plugin op_struct;
          operation_name = od_name op_descriptor
      in
      case (if truthy (od_plugin op_descriptor) then
              (case n_plugins node of
                 None \<Rightarrow> Inl (KeyError ''plugins'')
               | Some node_plugins \<Rightarrow>
                   Inr (node\<lparr>n_plugins :=
                          Some (AList.update plugin_name (od_plugin op_descriptor)
                                  node_plugins)\<rparr>))
            else Inr node) of
        Inl e \<Rightarrow> Inl e
      | Inr node' \<Rightarrow>
          context_operations_inner interface_name rest
            (record_operation interface_name operation_name op_struct operations, node'))"

fun context_operations_outer ::
  "script_constants \<Rightarrow> (string \<Rightarrow> string \<Rightarrow> bool) \<Rightarrow> string \<Rightarrow> interfaces_dict \<Rightarrow> ydict \<Rightarrow>
   int \<Rightarrow> string option \<Rightarrow> operations_table \<times> node \<Rightarrow> error + operations_table \<times> node" where
  "context_operations_outer consts resource_exists partial_error_message [] plugins
     error_code resource_base st = Inr st"
| "context_operations_outer consts resource_exists partial_error_message
     ((interface_name, interface) # rest) plugins error_code resource_base st =
     (case extract_plugin_names_and_operation_mapping_from_interface consts resource_exists
             interface plugins error_code
             (''In interface '' @ interface_name @ '' '' @ partial_error_message)
             resource_base of
        Inl e \<Rightarrow> Inl e
      | Inr operation_mapping_context \<Rightarrow>
          (case context_operations_inner interface_name operation_mapping_context st of
             Inl e \<Rightarrow> Inl e
           | Inr st' \<Rightarrow>
               context_operations_outer consts resource_exists partial_error_message rest
                 plugins error_code resource_base st'))"

text \<open>
  \<open>_process_context_operations\<close> returns the operations and changes the plugins of
  \<open>node\<close>; the model returns the operations together with the changed node.
\<close>

definition process_context_operations ::
  "script_constants \<Rightarrow> (string \<Rightarrow> string \<Rightarrow> bool) \<Rightarrow> string \<Rightarrow> interfaces_dict \<Rightarrow> ydict \<Rightarrow>
   node \<Rightarrow> int \<Rightarrow> string option \<Rightarrow> error + operations_dict \<times> node" where
  "process_context_operations consts resource_exists partial_error_message interfaces
     plugins node error_code resource_base =
     (case context_operations_outer consts resource_exists partial_error_message interfaces
             plugins error_code resource_base ([], node) of
        Inl e \<Rightarrow> Inl e
      | Inr (operations, node') \<Rightarrow>
          Inr (concat (map (\<lambda>(operation, op_struct).
                              case op_struct of
                                None \<Rightarrow> []
                              | Some s \<Rightarrow> [(operation, s)]) operations),
               node'))"

section \<open>Type and relationship implementations\<close>

text \<open>
  An implementation is a dictionary with the key \<open>type\<close> and, depending on its kind,
  \<open>node_ref\<close> or \<open>source_node_ref\<close> and \<open>target_node_ref\<close>, and optional \<open>properties\<close>.
\<close>

record implementation =
  impl_type :: string
  impl_node_ref :: "string option"
  impl_source_node_ref :: "string option"
  impl_target_node_ref :: "string option"
  impl_props :: "ydict option"

type_synonym implementations_dict = "(string \<times> implementation) list"

text \<open>
  The dictionary comprehension that selects the candidates; \<open>candidate_func\<close> may raise.
  The comprehension is a generator, which is a frame of its own, and \<open>candidate_func\<close>
  is called from there.
\<close>

fun implementation_candidates ::
  "(implementation \<Rightarrow> error + bool) \<Rightarrow> implementations_dict \<Rightarrow>
   error + implementations_dict" where
  "implementation_candidates candidate_func [] = Inr []"
| "implementation_candidates candidate_func ((impl_name, impl_content) # rest) =
     (case candidate_func impl_content of
        Inl e \<Rightarrow> Inl e
      | Inr b \<Rightarrow>
          (case implementation_candidates candidate_func rest of
             Inl e \<Rightarrow> Inl e
           | Inr candidates \<Rightarrow>
               Inr (if b then (impl_name, impl_content) # candidates else candidates)))"

text \<open>
  \<open>_get_implementation\<close> deletes from \<open>implementations\<close>, which its callers share.  The
  model returns the outcome (an exception, \<open>None\<close> or the implementation) together with
  the dictionary as the call leaves it, also when the call raises.  The arguments used
  only in messages (\<open>lookup_message_str\<close>, \<open>impl_category\<close>) are left out; an exception
  carries its attribute \<open>implementations\<close> or \<open>implementation\<close>.  \<open>frames\<close> is the number
  of frames left in the body of \<open>_get_implementation\<close>.
\<close>

definition get_implementation ::
  "nat \<Rightarrow> string \<Rightarrow> implementations_dict \<Rightarrow> types_dict \<Rightarrow> int \<Rightarrow> int \<Rightarrow>
   (implementation \<Rightarrow> error + bool) \<Rightarrow>
   (error + implementation option) \<times> implementations_dict" where
  "get_implementation frames type_name implementations types err_code_ambig err_code_derive
     candidate_func =
     (case implementation_candidates candidate_func implementations of
        Inl e \<Rightarrow> (Inl e, implementations)
      | Inr candidates \<Rightarrow>
          if length candidates > 1 then
            (Inl (DSLParsingLogicException err_code_ambig (map fst candidates)),
             implementations)
          else
            (case candidates of
               [] \<Rightarrow> (Inr None, implementations)
             | (impl_name, impl) # _ \<Rightarrow>
                 (case is_derived_from frames (impl_type impl) types type_name of
                    Inl e \<Rightarrow> (Inl e, implementations)
                  | Inr derived \<Rightarrow>
                      if \<not> derived then
                        (Inl (DSLParsingLogicException err_code_derive [impl_name]),
                         implementations)
                      else
                        (Inr (Some impl), AList.delete impl_name implementations))))"

text \<open>
  The two callers.  With \<open>frames\<close> left in the body of the caller, \<open>frames - 1\<close> are left
  in the body of \<open>_get_implementation\<close>, and \<open>frames - 3\<close> where the candidate function,
  called from the generator, calls \<open>_is_derived_from\<close>.
\<close>

definition get_type_implementation_if_exists ::
  "nat \<Rightarrow> string \<Rightarrow> string \<Rightarrow> implementations_dict \<Rightarrow> types_dict \<Rightarrow>
   (error + string \<times> ydict) \<times> implementations_dict" where
  "get_type_implementation_if_exists frames node_name node_type_name type_implementations
     types =
     (case get_implementation (frames - 1) node_type_name type_implementations types 103 102
             (\<lambda>impl_content.
                case impl_node_ref impl_content of
                  None \<Rightarrow> Inl (KeyError ''node_ref'')
                | Some node_ref \<Rightarrow> Inr (node_ref = node_name)) of
        (outcome, type_implementations') \<Rightarrow>
          (case outcome of
             Inl e \<Rightarrow> (Inl e, type_implementations')
           | Inr None \<Rightarrow> (Inr (node_type_name, []), type_implementations')
           | Inr (Some impl) \<Rightarrow>
               (Inr (impl_type impl,
                     (case impl_props impl of None \<Rightarrow> [] | Some p \<Rightarrow> p)),
                type_implementations')))"

definition get_relationship_implementation_if_exists ::
  "nat \<Rightarrow> string \<Rightarrow> string \<Rightarrow> implementations_dict \<Rightarrow> string \<Rightarrow> types_dict \<Rightarrow>
   (error + string \<times> ydict) \<times> implementations_dict" where
  "get_relationship_implementation_if_exists frames source_node_name target_node_name
     relationship_impls relationship_type relationships =
     (case get_implementation (frames - 1) relationship_type relationship_impls relationships
             108 109
             (\<lambda>impl_content.
                case impl_source_node_ref impl_content of
                  None \<Rightarrow> Inl (KeyError ''source_node_ref'')
                | Some source_node_ref \<Rightarrow>
                    if source_node_ref \<noteq> source_node_name then Inr False
                    else
                      (case impl_target_node_ref impl_content of
                         None \<Rightarrow> Inl (KeyError ''target_node_ref'')
                       | Some target_node_ref \<Rightarrow>
                           if target_node_ref \<noteq> target_node_name then Inr False
                           else is_derived_from (frames - 3) (impl_type impl_content)
                                  relationships relationship_type)) of
        (outcome, relationship_impls') \<Rightarrow>
          (case outcome of
             Inl e \<Rightarrow> (Inl e, relationship_impls')
           | Inr None \<Rightarrow> (Inr (relationship_type, []), relationship_impls')
           | Inr (Some impl) \<Rightarrow>
               (Inr (impl_type impl,
                     (case impl_props impl of None \<Rightarrow> [] | Some p \<Rightarrow> p)),
                relationship_impls')))"

section \<open>Relationships of a node template\<close>

text \<open>
  The two merge functions that \<open>_process_node_relationships\<close> calls,
  \<open>merge_relationship_type_and_instance_interfaces\<close> and
  \<open>merge_schema_and_instance_properties\<close>, are not among the sources; they are
  parameters of the model and may raise.  The first returns the pair of the source and
  the target interfaces; the second takes the instance properties, the properties of the
  implementation, the schema of the type and the node name (its two message templates
  are left out).
\<close>

record merge_functions =
  merge_relationship_type_and_instance_interfaces ::
    "dsl_type \<Rightarrow> relationship \<Rightarrow> error + interfaces_dict \<times> interfaces_dict"
  merge_schema_and_instance_properties ::
    "ydict \<Rightarrow> ydict \<Rightarrow> ydict \<Rightarrow> string \<Rightarrow> error + ydict"

text \<open>
  The body of the loop of \<open>_process_node_relationships\<close> for one relationship instance:
  it returns the complete relationship and the relationship implementations that are
  left.  \<open>frames\<close> is the number of frames left in the body of
  \<open>_process_node_relationships\<close>.
\<close>

definition process_node_relationship ::
  "nat \<Rightarrow> merge_functions \<Rightarrow> relationship \<Rightarrow> string \<Rightarrow> string set \<Rightarrow> types_dict \<Rightarrow>
   implementations_dict \<Rightarrow> error + relationship \<times> implementations_dict" where
  "process_node_relationship frames merges relationship node_name node_names_set
     top_level_relationships relationship_impls =
     (case r_target relationship of
        None \<Rightarrow> Inl (KeyError ''target'')
      | Some target \<Rightarrow>
          (case get_relationship_implementation_if_exists (frames - 1) node_name target
                  relationship_impls (r_type relationship) top_level_relationships of
             (outcome, relationship_impls') \<Rightarrow>
               (case outcome of
                  Inl e \<Rightarrow> Inl e
                | Inr (relationship_type, impl_properties) \<Rightarrow>
                    (let relationship1 = relationship\<lparr>r_type := relationship_type\<rparr> in
                     if target \<notin> node_names_set then
                       Inl (DSLParsingLogicException 25
                              [node_name, relationship_type, target])
                     else if target = node_name then
                       Inl (DSLParsingLogicException 23 [node_name, relationship_type])
                     else
                       (case map_of top_level_relationships relationship_type of
                          None \<Rightarrow>
                            Inl (DSLParsingLogicException 26 [node_name, relationship_type])
                        | Some relationship_complete_type \<Rightarrow>
                            (case merge_relationship_type_and_instance_interfaces merges
                                    relationship_complete_type relationship1 of
                               Inl e \<Rightarrow> Inl e
                             | Inr (source_interfaces, target_interfaces) \<Rightarrow>
                                 (let relationship2 = relationship1
                                        \<lparr>r_source_interfaces := Some source_interfaces,
                                         r_target_interfaces := Some target_interfaces\<rparr>
                                  in
                                  case merge_schema_and_instance_properties merges
                                         (case r_properties relationship2 of
                                            None \<Rightarrow> [] | Some p \<Rightarrow> p)
                                         impl_properties
                                         (case type_properties relationship_complete_type of
                                            None \<Rightarrow> [] | Some p \<Rightarrow> p)
                                         node_name of
                                    Inl e \<Rightarrow> Inl e
                                  | Inr properties \<Rightarrow>
                                      Inr (relationship2
                                             \<lparr>r_properties := Some properties,
                                              r_target_id := Some target,
                                              r_target := None,
                                              r_state := Some ''reachable''\<rparr>,
                                           relationship_impls'))))))))"

text \<open>The loop itself, with the accumulator \<open>relationships\<close>.\<close>

fun process_node_relationships_loop ::
  "nat \<Rightarrow> merge_functions \<Rightarrow> relationship list \<Rightarrow> string \<Rightarrow> string set \<Rightarrow> types_dict \<Rightarrow>
   implementations_dict \<Rightarrow> relationship list \<Rightarrow>
   error + relationship list \<times> implementations_dict" where
  "process_node_relationships_loop frames merges [] node_name node_names_set
     top_level_relationships relationship_impls relationships =
     Inr (relationships, relationship_impls)"
| "process_node_relationships_loop frames merges (relationship # rest) node_name
     node_names_set top_level_relationships relationship_impls relationships =
     (case process_node_relationship frames merges relationship node_name node_names_set
             top_level_relationships relationship_impls of
        Inl e \<Rightarrow> Inl e
      | Inr (complete_relationship, relationship_impls') \<Rightarrow>
          process_node_relationships_loop frames merges rest node_name node_names_set
            top_level_relationships relationship_impls'
            (relationships @ [complete_relationship]))"

text \<open>
  A node template, of which the parser reads the keys below.  \<open>_process_node_relationships\<close>
  sets the relationships of \<open>processed_node\<close> and consumes relationship implementations;
  the model returns both.
\<close>

record node_template =
  nt_type :: string
  nt_properties :: "ydict option"
  nt_interfaces :: "interfaces_dict option"
  nt_relationships :: "relationship list option"
  nt_instances :: "yval option"

definition process_node_relationships ::
  "nat \<Rightarrow> merge_functions \<Rightarrow> node_template \<Rightarrow> string \<Rightarrow> string set \<Rightarrow> node \<Rightarrow> types_dict \<Rightarrow>
   implementations_dict \<Rightarrow> error + node \<times> implementations_dict" where
  "process_node_relationships frames merges node node_name node_names_set processed_node
     top_level_relationships relationship_impls =
     (case nt_relationships node of
        None \<Rightarrow> Inr (processed_node, relationship_impls)
      | Some node_relationships \<Rightarrow>
          (case process_node_relationships_loop frames merges node_relationships node_name
                  node_names_set top_level_relationships relationship_impls [] of
             Inl e \<Rightarrow> Inl e
           | Inr (relationships, relationship_impls') \<Rightarrow>
               Inr (processed_node\<lparr>n_relationships := Some relationships\<rparr>,
                    relationship_impls')))"

section \<open>Post-processing of nodes\<close>

definition HOST_TYPE :: string where
  "HOST_TYPE = ''cloudify.types.host''"

definition DEPENDS_ON_REL_TYPE :: string where
  "DEPENDS_ON_REL_TYPE = ''cloudify.relationships.depends_on''"

definition CONTAINED_IN_REL_TYPE :: string where
  "CONTAINED_IN_REL_TYPE = ''cloudify.relationships.contained_in''"

definition CONNECTED_TO_REL_TYPE :: string where
  "CONNECTED_TO_REL_TYPE = ''cloudify.relationships.connected_to''"

text \<open>
  \<open>_build_family_descendants_set\<close>: the set comprehension over the keys of the types.
  The comprehension is a generator, a frame of its own: with \<open>frames\<close> left in the body
  of the function, \<open>frames - 1\<close> are left where \<open>_is_derived_from\<close> is called.
\<close>

fun build_family_descendants_loop ::
  "nat \<Rightarrow> string list \<Rightarrow> types_dict \<Rightarrow> string \<Rightarrow> error + string set" where
  "build_family_descendants_loop frames [] types_dict derived_from_name = Inr {}"
| "build_family_descendants_loop frames (type_name # rest) types_dict derived_from_name =
     (case is_derived_from (frames - 1) type_name types_dict derived_from_name of
        Inl e \<Rightarrow> Inl e
      | Inr b \<Rightarrow>
          (case build_family_descendants_loop frames rest types_dict derived_from_name of
             Inl e \<Rightarrow> Inl e
           | Inr family \<Rightarrow> Inr (if b then insert type_name family else family)))"

definition build_family_descendants_set ::
  "nat \<Rightarrow> types_dict \<Rightarrow> string \<Rightarrow> error + string set" where
  "build_family_descendants_set frames types_dict derived_from_name =
     build_family_descendants_loop frames (map fst types_dict) types_dict derived_from_name"

text \<open>
  The processed nodes are objects that the list \<open>processed_nodes\<close> and the dictionary
  \<open>node_name_to_node\<close> share, and post-processing changes them in place.  The model keeps
  the objects in the list; an object is its position.  \<open>node_index\<close> is the position that
  \<open>node_name_to_node\<close> gives for an id (the last node with that id, as \<open>dict(...)\<close> keeps
  the last pair of a key), and \<open>node_name_to_node\<close> reads the object there.
\<close>

definition node_index :: "node list \<Rightarrow> string \<Rightarrow> nat option" where
  "node_index processed_nodes node_id =
     (case filter (\<lambda>i. n_id (processed_nodes ! i) = node_id)
             (rev [0 ..< length processed_nodes]) of
        [] \<Rightarrow> None
      | i # _ \<Rightarrow> Some i)"

definition node_name_to_node :: "node list \<Rightarrow> string \<Rightarrow> node option" where
  "node_name_to_node processed_nodes node_id =
     map_option (\<lambda>i. processed_nodes ! i) (node_index processed_nodes node_id)"

text \<open>
  \<open>_add_base_type_to_relationship\<close> sets \<open>base\<close> and appends to the list
  \<open>contained_in_relationships\<close>; the model returns the relationship and the list.
\<close>

definition add_base_type_to_relationship ::
  "relationship \<Rightarrow> string set \<Rightarrow> string set \<Rightarrow> string set \<Rightarrow> string list \<Rightarrow>
   relationship \<times> string list" where
  "add_base_type_to_relationship relationship contained_in_rel_types connected_to_rel_types
     depends_on_rel_types contained_in_relationships =
     (let rel_type = r_type relationship in
      if rel_type \<in> contained_in_rel_types then
        (relationship\<lparr>r_base := Some ''contained''\<rparr>, contained_in_relationships @ [rel_type])
      else if rel_type \<in> connected_to_rel_types then
        (relationship\<lparr>r_base := Some ''connected''\<rparr>, contained_in_relationships)
      else if rel_type \<in> depends_on_rel_types then
        (relationship\<lparr>r_base := Some ''depends''\<rparr>, contained_in_relationships)
      else
        (relationship\<lparr>r_base := Some ''undefined''\<rparr>, contained_in_relationships))"

text \<open>
  \<open>_process_node_relationships_operations\<close> is called with the attribute names
  \<open>source_interfaces\<close>, \<open>source_operations\<close> or \<open>target_interfaces\<close>, \<open>target_operations\<close>.
  It changes the relationship and the plugins of \<open>node_for_plugins\<close>, here the object at
  a position of the list.
\<close>

definition relationship_interfaces :: "string \<Rightarrow> relationship \<Rightarrow> interfaces_dict option" where
  "relationship_interfaces interfaces_attribute relationship =
     (if interfaces_attribute = ''source_interfaces'' then r_source_interfaces relationship
      else if interfaces_attribute = ''target_interfaces'' then r_target_interfaces relationship
      else None)"

definition set_relationship_operations ::
  "string \<Rightarrow> operations_dict \<Rightarrow> relationship \<Rightarrow> relationship" where
  "set_relationship_operations operations_attribute operations relationship =
     (if operations_attribute = ''source_operations''
      then relationship\<lparr>r_source_operations := Some operations\<rparr>
      else if operations_attribute = ''target_operations''
      then relationship\<lparr>r_target_operations := Some operations\<rparr>
      else relationship)"

definition process_node_relationships_operations ::
  "script_constants \<Rightarrow> (string \<Rightarrow> string \<Rightarrow> bool) \<Rightarrow> relationship \<Rightarrow> string \<Rightarrow> string \<Rightarrow>
   nat \<Rightarrow> node list \<Rightarrow> ydict \<Rightarrow> string option \<Rightarrow> error + relationship \<times> node list" where
  "process_node_relationships_operations consts resource_exists relationship
     interfaces_attribute operations_attribute node_for_plugins processed_nodes plugins
     resource_base =
     (case relationship_interfaces interfaces_attribute relationship of
        None \<Rightarrow> Inr (relationship, processed_nodes)
      | Some interfaces \<Rightarrow>
          (let partial_error_message =
                 ''in relationship of type '' @ r_type relationship @ '' in node ''
                   @ n_id (processed_nodes ! node_for_plugins)
           in
           case process_context_operations consts resource_exists partial_error_message
                  interfaces plugins (processed_nodes ! node_for_plugins) 19 resource_base of
             Inl e \<Rightarrow> Inl e
           | Inr (operations, node') \<Rightarrow>
               Inr (set_relationship_operations operations_attribute operations relationship,
                    processed_nodes[node_for_plugins := node'])))"

text \<open>
  The loop of \<open>_post_process_node_relationships\<close> over the relationships of the node at
  position \<open>processed_node\<close>.  The state is the list of node objects, the relationships
  done so far and \<open>contained_in_relationships\<close>.  \<open>frames\<close> is the number of frames left
  in the body of \<open>_post_process_node_relationships\<close>.
\<close>

fun post_process_node_relationships_loop ::
  "nat \<Rightarrow> script_constants \<Rightarrow> (string \<Rightarrow> string \<Rightarrow> bool) \<Rightarrow> relationship list \<Rightarrow> nat \<Rightarrow>
   ydict \<Rightarrow> string set \<Rightarrow> string set \<Rightarrow> string set \<Rightarrow> types_dict \<Rightarrow> string option \<Rightarrow>
   node list \<times> relationship list \<times> string list \<Rightarrow>
   error + node list \<times> relationship list \<times> string list" where
  "post_process_node_relationships_loop frames consts resource_exists [] processed_node
     plugins contained_in_rel_types connected_to_rel_types depends_on_rel_type relationships
     resource_base st = Inr st"
| "post_process_node_relationships_loop frames consts resource_exists (relationship # rest)
     processed_node plugins contained_in_rel_types connected_to_rel_types depends_on_rel_type
     relationships resource_base (processed_nodes, finished, contained_in_relationships) =
     (case r_target_id relationship of
        None \<Rightarrow> Inl (KeyError ''target_id'')
      | Some target_id \<Rightarrow>
          (case node_index processed_nodes target_id of
             None \<Rightarrow> Inl (KeyError target_id)
           | Some target_node \<Rightarrow>
               (case process_node_relationships_operations consts resource_exists relationship
                       ''source_interfaces'' ''source_operations'' processed_node
                       processed_nodes plugins resource_base of
                  Inl e \<Rightarrow> Inl e
                | Inr (relationship1, processed_nodes1) \<Rightarrow>
                    (case process_node_relationships_operations consts resource_exists
                            relationship1 ''target_interfaces'' ''target_operations''
                            target_node processed_nodes1 plugins resource_base of
                       Inl e \<Rightarrow> Inl e
                     | Inr (relationship2, processed_nodes2) \<Rightarrow>
                         (case add_base_type_to_relationship relationship2
                                 contained_in_rel_types connected_to_rel_types
                                 depends_on_rel_type contained_in_relationships of
                            (relationship3, contained_in_relationships') \<Rightarrow>
                              (case create_type_hierarchy frames (r_type relationship3)
                                      relationships of
                                 Inl e \<Rightarrow> Inl e
                               | Inr type_hierarchy \<Rightarrow>
                                   post_process_node_relationships_loop frames consts
                                     resource_exists rest processed_node plugins
                                     contained_in_rel_types connected_to_rel_types
                                     depends_on_rel_type relationships resource_base
                                     (processed_nodes2,
                                      finished @ [relationship3
                                         \<lparr>r_type_hierarchy := Some type_hierarchy\<rparr>],
                                      contained_in_relationships')))))))"

text \<open>
  \<open>_post_process_node_relationships\<close> for the node at position \<open>processed_node\<close>.  It
  returns the list of node objects, in which the relationships of that node carry what
  the loop has set.  The exception 112 carries its attribute \<open>relationship_types\<close>.
\<close>

definition post_process_node_relationships ::
  "nat \<Rightarrow> script_constants \<Rightarrow> (string \<Rightarrow> string \<Rightarrow> bool) \<Rightarrow> nat \<Rightarrow> node list \<Rightarrow> ydict \<Rightarrow>
   string set \<Rightarrow> string set \<Rightarrow> string set \<Rightarrow> types_dict \<Rightarrow> string option \<Rightarrow>
   error + node list" where
  "post_process_node_relationships frames consts resource_exists processed_node
     processed_nodes plugins contained_in_rel_types connected_to_rel_types
     depends_on_rel_type relationships resource_base =
     (case n_relationships (processed_nodes ! processed_node) of
        None \<Rightarrow> Inr processed_nodes
      | Some node_relationships \<Rightarrow>
          (case post_process_node_relationships_loop frames consts resource_exists
                  node_relationships processed_node plugins contained_in_rel_types
                  connected_to_rel_types depends_on_rel_type relationships resource_base
                  (processed_nodes, [], []) of
             Inl e \<Rightarrow> Inl e
           | Inr (processed_nodes', finished, contained_in_relationships) \<Rightarrow>
               if length contained_in_relationships > 1 then
                 Inl (DSLParsingLogicException 112 contained_in_relationships)
               else
                 Inr (processed_nodes'[processed_node :=
                        (processed_nodes' ! processed_node)
                          \<lparr>n_relationships := Some finished\<rparr>])))"

text \<open>
  \<open>_extract_node_host_id\<close> returns at the first relationship of the contained-in family
  and returns \<open>None\<close> when it falls off the end.  It recurses with no cycle detection,
  one frame for each node on the way; \<open>frames\<close> is the number of frames that the
  interpreter can still push when the function is called.
\<close>

fun extract_node_host_id ::
  "nat \<Rightarrow> node \<Rightarrow> (string \<Rightarrow> node option) \<Rightarrow> string set \<Rightarrow> string set \<Rightarrow>
   error + string option" where
  "extract_node_host_id 0 processed_node name_to_node host_types contained_in_rel_types =
     Inl maximum_recursion_depth_exceeded"
| "extract_node_host_id (Suc frames) processed_node name_to_node host_types
     contained_in_rel_types =
     (if n_type processed_node \<in> host_types then Inr (Some (n_id processed_node))
      else
        (case n_relationships processed_node of
           None \<Rightarrow> Inr None
         | Some node_relationships \<Rightarrow>
             (case find (\<lambda>rel. r_type rel \<in> contained_in_rel_types) node_relationships of
                None \<Rightarrow> Inr None
              | Some rel \<Rightarrow>
                  (case r_target_id rel of
                     None \<Rightarrow> Inl (KeyError ''target_id'')
                   | Some target_id \<Rightarrow>
                       (case name_to_node target_id of
                          None \<Rightarrow> Inl (KeyError target_id)
                        | Some target_node \<Rightarrow>
                            extract_node_host_id frames target_node name_to_node host_types
                              contained_in_rel_types)))))"

text \<open>
  The part of \<open>_post_process_nodes\<close> that sets \<open>host_id\<close>: the loop over the positions of
  \<open>processed_nodes\<close>, in which \<open>if host_id:\<close> skips \<open>None\<close> and the empty string, after the
  host types have been computed.  \<open>frames\<close> is the number of frames left in the body of
  \<open>_post_process_nodes\<close>.
\<close>

fun host_ids_loop ::
  "nat \<Rightarrow> nat list \<Rightarrow> node list \<Rightarrow> string set \<Rightarrow> string set \<Rightarrow> error + node list" where
  "host_ids_loop frames [] processed_nodes host_types contained_in_rel_types =
     Inr processed_nodes"
| "host_ids_loop frames (i # rest) processed_nodes host_types contained_in_rel_types =
     (case extract_node_host_id frames (processed_nodes ! i)
             (node_name_to_node processed_nodes) host_types contained_in_rel_types of
        Inl e \<Rightarrow> Inl e
      | Inr host_id \<Rightarrow>
          host_ids_loop frames rest
            (case host_id of
               None \<Rightarrow> processed_nodes
             | Some h \<Rightarrow>
                 if h \<noteq> [] then
                   processed_nodes[i := (processed_nodes ! i)\<lparr>n_host_id := Some h\<rparr>]
                 else processed_nodes)
            host_types contained_in_rel_types)"

definition post_process_nodes_host_ids ::
  "nat \<Rightarrow> node list \<Rightarrow> types_dict \<Rightarrow> string set \<Rightarrow> error + node list" where
  "post_process_nodes_host_ids frames processed_nodes types contained_in_rel_types =
     (case build_family_descendants_set (frames - 1) types HOST_TYPE of
        Inl e \<Rightarrow> Inl e
      | Inr host_types \<Rightarrow>
          host_ids_loop frames [0 ..< length processed_nodes] processed_nodes host_types
            contained_in_rel_types)"

section \<open>Merging imports\<close>

definition VERSION :: string where
  "VERSION = ''tosca_definitions_version''"

definition IMPORTS :: string where
  "IMPORTS = ''imports''"

text \<open>
  \<open>_replace_ref_with_inline_paths\<close> walks lists and dictionaries and replaces the value
  of every key \<open>ref\<close> by what \<open>_apply_ref\<close> reads for it.  Reading is input from outside:
  \<open>apply_ref\<close> is a parameter that gives the content, or the exception, for a value.
\<close>

fun replace_ref_with_inline_paths :: "(yval \<Rightarrow> error + yval) \<Rightarrow> yval \<Rightarrow> error + yval"
  and replace_ref_items :: "(yval \<Rightarrow> error + yval) \<Rightarrow> yval list \<Rightarrow> error + yval list"
  and replace_ref_entries :: "(yval \<Rightarrow> error + yval) \<Rightarrow> ydict \<Rightarrow> error + ydict" where
  "replace_ref_with_inline_paths apply_ref (YDict entries) =
     (case replace_ref_entries apply_ref entries of
        Inl e \<Rightarrow> Inl e
      | Inr entries' \<Rightarrow> Inr (YDict entries'))"
| "replace_ref_with_inline_paths apply_ref (YList items) =
     (case replace_ref_items apply_ref items of
        Inl e \<Rightarrow> Inl e
      | Inr items' \<Rightarrow> Inr (YList items'))"
| "replace_ref_with_inline_paths apply_ref YNone = Inr YNone"
| "replace_ref_with_inline_paths apply_ref (YBool b) = Inr (YBool b)"
| "replace_ref_with_inline_paths apply_ref (YInt i) = Inr (YInt i)"
| "replace_ref_with_inline_paths apply_ref (YStr s) = Inr (YStr s)"
| "replace_ref_items apply_ref [] = Inr []"
| "replace_ref_items apply_ref (item # items) =
     (case replace_ref_with_inline_paths apply_ref item of
        Inl e \<Rightarrow> Inl e
      | Inr item' \<Rightarrow>
          (case replace_ref_items apply_ref items of
             Inl e \<Rightarrow> Inl e
           | Inr items' \<Rightarrow> Inr (item' # items')))"
| "replace_ref_entries apply_ref [] = Inr []"
| "replace_ref_entries apply_ref ((key, val) # entries) =
     (case (if key = ''ref'' then apply_ref val
            else replace_ref_with_inline_paths apply_ref val) of
        Inl e \<Rightarrow> Inl e
      | Inr val' \<Rightarrow>
          (case replace_ref_entries apply_ref entries of
             Inl e \<Rightarrow> Inl e
           | Inr entries' \<Rightarrow> Inr ((key, val') # entries')))"

text \<open>
  Python's \<open>key in container\<close> and \<open>container[key] = value\<close> for a string key.  An
  imported document is merged before any schema validation, so the two sides of a merge
  need not be dictionaries: \<open>in\<close> is the substring test on a string and membership on a
  list, and item assignment with a string key works on a dictionary only.
\<close>

definition is_substring :: "string \<Rightarrow> string \<Rightarrow> bool" where
  "is_substring k s = list_ex (\<lambda>i. take (length k) (drop i s) = k) [0 ..< Suc (length s)]"

fun py_contains :: "yval \<Rightarrow> string \<Rightarrow> error + bool" where
  "py_contains (YDict d) k = Inr (k \<in> fst ` set d)"
| "py_contains (YStr s) k = Inr (is_substring k s)"
| "py_contains (YList xs) k = Inr (YStr k \<in> set xs)"
| "py_contains v k = Inl (TypeError ''not iterable'')"

fun py_setitem :: "yval \<Rightarrow> string \<Rightarrow> yval \<Rightarrow> error + yval" where
  "py_setitem (YDict d) k v = Inr (YDict (AList.update k v d))"
| "py_setitem c k v = Inl (TypeError ''item assignment'')"

text \<open>
  \<open>_merge_into_dict_or_throw_on_duplicate\<close>: the loop over the entries of \<open>from_dict\<close>,
  which changes \<open>to_dict\<close>; the model returns the changed \<open>to_dict\<close>.  The exception 4
  carries the top-level key and the conflict path.
\<close>

fun merge_entries_or_throw_on_duplicate ::
  "ydict \<Rightarrow> yval \<Rightarrow> string \<Rightarrow> string list \<Rightarrow> error + yval" where
  "merge_entries_or_throw_on_duplicate [] to_dict top_level_key path = Inr to_dict"
| "merge_entries_or_throw_on_duplicate ((key, val) # entries) to_dict top_level_key path =
     (case py_contains to_dict key of
        Inl e \<Rightarrow> Inl e
      | Inr present \<Rightarrow>
          if \<not> present then
            (case py_setitem to_dict key val of
               Inl e \<Rightarrow> Inl e
             | Inr to_dict' \<Rightarrow>
                 merge_entries_or_throw_on_duplicate entries to_dict' top_level_key path)
          else Inl (DSLParsingLogicException 4 (top_level_key # path @ [key])))"

definition merge_into_dict_or_throw_on_duplicate ::
  "yval \<Rightarrow> yval \<Rightarrow> string \<Rightarrow> string list \<Rightarrow> error + yval" where
  "merge_into_dict_or_throw_on_duplicate from_dict to_dict top_level_key path =
     (case from_dict of
        YDict entries \<Rightarrow> merge_entries_or_throw_on_duplicate entries to_dict top_level_key path
      | _ \<Rightarrow> Inl (AttributeError ''iteritems''))"

definition merge_no_override :: "string set" where
  "merge_no_override =
     {''interfaces'', ''node_types'', ''plugins'', ''workflows'', ''type_implementations'',
      ''relationships'', ''relationship_implementations'', ''policy_types'', ''groups'',
      ''policy_triggers''}"

text \<open>
  The loop of \<open>_combine_imports\<close> that combines one imported document with the combined
  document.  The branch for \<open>merge_one_nested_level_no_override\<close> is left out: that
  dictionary is empty, so no key is in it.
\<close>

fun merge_imported_dsl :: "ydict \<Rightarrow> ydict \<Rightarrow> error + ydict" where
  "merge_imported_dsl [] combined_parsed_dsl = Inr combined_parsed_dsl"
| "merge_imported_dsl ((key, val) # rest) combined_parsed_dsl =
     (if key = IMPORTS then merge_imported_dsl rest combined_parsed_dsl
      else
        (case map_of combined_parsed_dsl key of
           None \<Rightarrow> merge_imported_dsl rest (AList.update key val combined_parsed_dsl)
         | Some existing \<Rightarrow>
             if key \<in> merge_no_override then
               (case merge_into_dict_or_throw_on_duplicate val existing key [] of
                  Inl e \<Rightarrow> Inl e
                | Inr merged \<Rightarrow>
                    merge_imported_dsl rest (AList.update key merged combined_parsed_dsl))
             else Inl (DSLParsingLogicException 3 [key])))"

text \<open>
  The loop over \<open>ordered_imports_list\<close>.  Opening and parsing an import is input from
  outside: every import comes with the outcome of loading it, the parsed document or
  the exception.
\<close>

fun combine_imports_loop ::
  "(string option \<Rightarrow> yval \<Rightarrow> error + yval) \<Rightarrow> (string \<times> (error + ydict)) list \<Rightarrow> yval \<Rightarrow>
   ydict \<Rightarrow> error + ydict" where
  "combine_imports_loop apply_ref [] dsl_version combined_parsed_dsl = Inr combined_parsed_dsl"
| "combine_imports_loop apply_ref ((single_import, loaded) # rest) dsl_version
     combined_parsed_dsl =
     (case loaded of
        Inl e \<Rightarrow> Inl e
      | Inr parsed_imported_dsl \<Rightarrow>
          (case map_of parsed_imported_dsl VERSION of
             Some imported_dsl_version \<Rightarrow>
               if imported_dsl_version \<noteq> dsl_version then
                 Inl (DSLParsingLogicException 28 [single_import])
               else
                 (case replace_ref_entries (apply_ref (Some single_import))
                         (AList.delete VERSION parsed_imported_dsl) of
                    Inl e \<Rightarrow> Inl e
                  | Inr inlined \<Rightarrow>
                      (case merge_imported_dsl inlined combined_parsed_dsl of
                         Inl e \<Rightarrow> Inl e
                       | Inr combined' \<Rightarrow>
                           combine_imports_loop apply_ref rest dsl_version combined'))
           | None \<Rightarrow>
               (case replace_ref_entries (apply_ref (Some single_import))
                       parsed_imported_dsl of
                  Inl e \<Rightarrow> Inl e
                | Inr inlined \<Rightarrow>
                    (case merge_imported_dsl inlined combined_parsed_dsl of
                       Inl e \<Rightarrow> Inl e
                     | Inr combined' \<Rightarrow>
                         combine_imports_loop apply_ref rest dsl_version combined'))))"

text \<open>
  \<open>_combine_imports\<close>.  \<open>ordered_imports\<close> is the outcome of validating the imports
  section and of \<open>_build_ordered_imports_list\<close>, which read the imported files: an
  exception, or the list of the import locations with the outcome of loading each.
\<close>

definition combine_imports ::
  "(string option \<Rightarrow> yval \<Rightarrow> error + yval) \<Rightarrow> ydict \<Rightarrow> string option \<Rightarrow>
   error + (string \<times> (error + ydict)) list \<Rightarrow> error + ydict" where
  "combine_imports apply_ref parsed_dsl dsl_location ordered_imports =
     (case replace_ref_entries (apply_ref dsl_location) parsed_dsl of
        Inl e \<Rightarrow> Inl e
      | Inr combined_parsed_dsl \<Rightarrow>
          (case map_of parsed_dsl VERSION of
             None \<Rightarrow> Inl (DSLParsingLogicException 27 [VERSION])
           | Some dsl_version \<Rightarrow>
               if IMPORTS \<notin> fst ` set parsed_dsl then Inr combined_parsed_dsl
               else
                 (case ordered_imports of
                    Inl e \<Rightarrow> Inl e
                  | Inr ordered_imports_list \<Rightarrow>
                      (case combine_imports_loop apply_ref
                              (if dsl_location \<noteq> None \<and> dsl_location \<noteq> Some []
                               then tl ordered_imports_list else ordered_imports_list)
                              dsl_version combined_parsed_dsl of
                         Inl e \<Rightarrow> Inl e
                       | Inr combined' \<Rightarrow> Inr (AList.delete IMPORTS combined')))))"

section \<open>Validation of intrinsic functions\<close>

text \<open>
  \<open>_validate_functions\<close> is among the sources; the modules \<open>functions\<close> and \<open>scan\<close> that it
  calls are not.  The values of a plan are those of a document and, while the validator
  runs, instances of the function \<open>get_property\<close>, which keep their raw original form,
  their node name and their property path.
\<close>

datatype pval =
    PNone
  | PBool bool
  | PInt int
  | PStr string
  | PList "pval list"
  | PDict "(string \<times> pval) list"
  | PGetProperty pval string "string list"

text \<open>
  Modelled from the spec: the module \<open>functions\<close> is missing.  The specification gives the
  registry of intrinsic functions as open, with the hooks \<open>parse\<close>, \<open>validate\<close> and
  \<open>evaluate\<close>; they are parameters here, already applied to the plan.  \<open>fn_parse\<close> tells
  whether a value parses as an intrinsic function and, for \<open>get_property\<close>, with which node
  name and property path; \<open>fn_validate\<close> may raise; \<open>fn_evaluate\<close> evaluates a
  \<open>get_property\<close> instance; \<open>fn_node_template_name\<close> is the name of the node template of an
  instance; \<open>fn_separator\<close> is the constant \<open>FUNCTION_NAME_PATH_SEPARATOR\<close>.
\<close>

datatype parsed_function = GetProperty string "string list" | OtherFunction

record functions_module =
  fn_parse :: "pval \<Rightarrow> parsed_function option"
  fn_validate :: "pval \<Rightarrow> error option"
  fn_evaluate :: "string \<Rightarrow> string list \<Rightarrow> error + pval"
  fn_node_template_name :: "string \<Rightarrow> error + string"
  fn_separator :: string

text \<open>
  Modelled from the spec: the module \<open>scan\<close> is missing.  The specification has the plan
  scanned recursively, every leaf that the handler turns into something else being
  replaced by it; a replaced leaf is opaque and is not scanned further.  The handler
  threads a state (the functions it collects).  Which parts of a plan are scanned is not
  given, so the plan is one tree and all of it is scanned.
\<close>

fun scan_properties ::
    "(pval \<Rightarrow> 's \<Rightarrow> error + pval \<times> 's) \<Rightarrow> pval \<Rightarrow> 's \<Rightarrow> error + pval \<times> 's"
  and scan_items ::
    "(pval \<Rightarrow> 's \<Rightarrow> error + pval \<times> 's) \<Rightarrow> pval list \<Rightarrow> 's \<Rightarrow> error + pval list \<times> 's"
  and scan_entries ::
    "(pval \<Rightarrow> 's \<Rightarrow> error + pval \<times> 's) \<Rightarrow> (string \<times> pval) list \<Rightarrow> 's \<Rightarrow>
     error + (string \<times> pval) list \<times> 's" where
  "scan_properties handler (PDict entries) s =
     (case scan_entries handler entries s of
        Inl e \<Rightarrow> Inl e
      | Inr (entries', s') \<Rightarrow> Inr (PDict entries', s'))"
| "scan_properties handler (PList items) s =
     (case scan_items handler items s of
        Inl e \<Rightarrow> Inl e
      | Inr (items', s') \<Rightarrow> Inr (PList items', s'))"
| "scan_properties handler PNone s = Inr (PNone, s)"
| "scan_properties handler (PBool b) s = Inr (PBool b, s)"
| "scan_properties handler (PInt i) s = Inr (PInt i, s)"
| "scan_properties handler (PStr x) s = Inr (PStr x, s)"
| "scan_properties handler (PGetProperty raw node_name path) s =
     Inr (PGetProperty raw node_name path, s)"
| "scan_items handler [] s = Inr ([], s)"
| "scan_items handler (item # items) s =
     (case handler item s of
        Inl e \<Rightarrow> Inl e
      | Inr (result, s1) \<Rightarrow>
          (case (if result \<noteq> item then Inr (result, s1)
                 else scan_properties handler item s1) of
             Inl e \<Rightarrow> Inl e
           | Inr (item', s2) \<Rightarrow>
               (case scan_items handler items s2 of
                  Inl e \<Rightarrow> Inl e
                | Inr (items', s3) \<Rightarrow> Inr (item' # items', s3))))"
| "scan_entries handler [] s = Inr ([], s)"
| "scan_entries handler ((key, val) # entries) s =
     (case handler val s of
        Inl e \<Rightarrow> Inl e
      | Inr (result, s1) \<Rightarrow>
          (case (if result \<noteq> val then Inr (result, s1)
                 else scan_properties handler val s1) of
             Inl e \<Rightarrow> Inl e
           | Inr (val', s2) \<Rightarrow>
               (case scan_entries handler entries s2 of
                  Inl e \<Rightarrow> Inl e
                | Inr (entries', s3) \<Rightarrow> Inr ((key, val') # entries', s3))))"

definition scan_service_template ::
  "pval \<Rightarrow> (pval \<Rightarrow> 's \<Rightarrow> error + pval \<times> 's) \<Rightarrow> 's \<Rightarrow> error + pval \<times> 's" where
  "scan_service_template plan handler s = scan_properties handler plan s"

text \<open>
  The first handler of \<open>_validate_functions\<close>: its state is the list
  \<open>get_property_functions\<close>.
\<close>

definition validate_handler ::
  "functions_module \<Rightarrow> pval \<Rightarrow> pval list \<Rightarrow> error + pval \<times> pval list" where
  "validate_handler fm v get_property_functions =
     (case fn_parse fm v of
        None \<Rightarrow> Inr (v, get_property_functions)
      | Some parsed \<Rightarrow>
          (case fn_validate fm v of
             Some e \<Rightarrow> Inl e
           | None \<Rightarrow>
               (case parsed of
                  GetProperty node_name property_path \<Rightarrow>
                    Inr (PGetProperty v node_name property_path,
                         get_property_functions @ [PGetProperty v node_name property_path])
                | OtherFunction \<Rightarrow> Inr (v, get_property_functions))))"

fun join :: "string \<Rightarrow> string list \<Rightarrow> string" where
  "join sep [] = []"
| "join sep [x] = x"
| "join sep (x # y # ys) = x @ sep @ join sep (y # ys)"

definition get_property_id :: "functions_module \<Rightarrow> string \<Rightarrow> string list \<Rightarrow> error + string" where
  "get_property_id fm node_name property_path =
     (case fn_node_template_name fm node_name of
        Inl e \<Rightarrow> Inl e
      | Inr template_name \<Rightarrow>
          Inr (template_name @ ''.'' @ join (fn_separator fm) property_path))"

text \<open>
  \<open>validate_no_circular_get_property\<close> follows evaluations for as long as they yield
  \<open>get_property\<close> instances, so it need not return: the first argument bounds the depth
  of the calls, and \<open>None\<close> is a run that exceeds it.  The state is the list
  \<open>visited_functions\<close>, which the runtime error carries (the formatting of its message is
  left out).  Values other than instances are scanned, the function being the handler.
\<close>

fun validate_no_circular_get_property ::
    "nat \<Rightarrow> functions_module \<Rightarrow> pval \<Rightarrow> string list \<Rightarrow> (error + string list) option"
  and validate_no_circular_all ::
    "nat \<Rightarrow> functions_module \<Rightarrow> pval list \<Rightarrow> string list \<Rightarrow> (error + string list) option"
  where
  "validate_no_circular_get_property 0 fm r visited_functions = None"
| "validate_no_circular_get_property (Suc n) fm r visited_functions =
     (case r of
        PGetProperty raw node_name property_path \<Rightarrow>
          (case get_property_id fm node_name property_path of
             Inl e \<Rightarrow> Some (Inl e)
           | Inr func_id \<Rightarrow>
               if func_id \<in> set visited_functions then
                 Some (Inl (RuntimeError (visited_functions @ [func_id])))
               else
                 (case fn_evaluate fm node_name property_path of
                    Inl e \<Rightarrow> Some (Inl e)
                  | Inr r' \<Rightarrow>
                      validate_no_circular_get_property n fm r'
                        (visited_functions @ [func_id])))
      | PDict entries \<Rightarrow> validate_no_circular_all n fm (map snd entries) visited_functions
      | PList items \<Rightarrow> validate_no_circular_all n fm items visited_functions
      | _ \<Rightarrow> Some (Inr visited_functions))"
| "validate_no_circular_all 0 fm rs visited_functions = None"
| "validate_no_circular_all (Suc n) fm [] visited_functions = Some (Inr visited_functions)"
| "validate_no_circular_all (Suc n) fm (r # rs) visited_functions =
     (case validate_no_circular_get_property n fm r visited_functions of
        None \<Rightarrow> None
      | Some (Inl e) \<Rightarrow> Some (Inl e)
      | Some (Inr visited') \<Rightarrow> validate_no_circular_all n fm rs visited')"

text \<open>The loop over \<open>get_property_functions\<close>.\<close>

fun validate_no_circular_loop ::
  "nat \<Rightarrow> functions_module \<Rightarrow> pval list \<Rightarrow> (error + unit) option" where
  "validate_no_circular_loop depth fm [] = Some (Inr ())"
| "validate_no_circular_loop depth fm (func # rest) =
     (case func of
        PGetProperty raw node_name property_path \<Rightarrow>
          (case get_property_id fm node_name property_path of
             Inl e \<Rightarrow> Some (Inl e)
           | Inr func_id \<Rightarrow>
               (case fn_evaluate fm node_name property_path of
                  Inl e \<Rightarrow> Some (Inl e)
                | Inr result \<Rightarrow>
                    (case validate_no_circular_get_property depth fm result [func_id] of
                       None \<Rightarrow> None
                     | Some (Inl e) \<Rightarrow> Some (Inl e)
                     | Some (Inr visited) \<Rightarrow> validate_no_circular_loop depth fm rest)))
      | _ \<Rightarrow> validate_no_circular_loop depth fm rest)"

text \<open>The last handler, which has no state.\<close>

definition replace_with_raw_function :: "pval \<Rightarrow> unit \<Rightarrow> error + pval \<times> unit" where
  "replace_with_raw_function v u =
     (case v of
        PGetProperty raw node_name property_path \<Rightarrow> Inr (raw, u)
      | _ \<Rightarrow> Inr (v, u))"

text \<open>
  \<open>_validate_functions\<close> changes the plan in place; the model returns the plan as the
  call leaves it.
\<close>

definition validate_functions ::
  "nat \<Rightarrow> functions_module \<Rightarrow> pval \<Rightarrow> (error + pval) option" where
  "validate_functions depth fm plan =
     (case scan_service_template plan (validate_handler fm) [] of
        Inl e \<Rightarrow> Some (Inl e)
      | Inr (plan1, get_property_functions) \<Rightarrow>
          if get_property_functions = [] then Some (Inr plan1)
          else
            (case validate_no_circular_loop depth fm get_property_functions of
               None \<Rightarrow> None
             | Some (Inl e) \<Rightarrow> Some (Inl e)
             | Some (Inr u) \<Rightarrow>
                 (case scan_service_template plan1 replace_with_raw_function () of
                    Inl e \<Rightarrow> Some (Inl e)
                  | Inr (plan2, u') \<Rightarrow> Some (Inr plan2))))"

text \<open>A value that holds no function instance: only raw leaves.\<close>

fun only_raw :: "pval \<Rightarrow> bool" where
  "only_raw (PGetProperty raw node_name path) = False"
| "only_raw (PList items) = (\<forall>item \<in> set items. only_raw item)"
| "only_raw (PDict entries) = (\<forall>entry \<in> set entries. only_raw (snd entry))"
| "only_raw v = True"

text \<open>
  What the proofs use of the first handler: it returns its argument and state unchanged,
  or a \<open>get_property\<close> instance whose raw form is its argument, which it also appends to
  its state.
\<close>

definition collecting :: "(pval \<Rightarrow> pval list \<Rightarrow> error + pval \<times> pval list) \<Rightarrow> bool" where
  "collecting h \<longleftrightarrow>
     (\<forall>v s r s'. h v s = Inr (r, s') \<longrightarrow>
        (r = v \<and> s' = s) \<or> (\<exists>n p. r = PGetProperty v n p \<and> s' = s @ [r]))"

section \<open>Containment chains\<close>

text \<open>
  \<open>hosted_by name_to_node host_types contained_in_rel_types n host\<close>: from node \<open>n\<close> a
  chain of relationships of the contained-in family, followed through their targets,
  reaches the node \<open>host\<close>, whose type is a host type and which is the first such node on
  the chain.
\<close>

inductive hosted_by ::
  "(string \<Rightarrow> node option) \<Rightarrow> string set \<Rightarrow> string set \<Rightarrow> node \<Rightarrow> node \<Rightarrow> bool"
  for name_to_node host_types contained_in_rel_types where
  self: "n_type n \<in> host_types
         \<Longrightarrow> hosted_by name_to_node host_types contained_in_rel_types n n"
| climb: "n_type n \<notin> host_types \<Longrightarrow> n_relationships n = Some node_relationships
         \<Longrightarrow> rel \<in> set node_relationships \<Longrightarrow> r_type rel \<in> contained_in_rel_types
         \<Longrightarrow> r_target_id rel = Some target_id \<Longrightarrow> name_to_node target_id = Some target_node
         \<Longrightarrow> hosted_by name_to_node host_types contained_in_rel_types target_node host
         \<Longrightarrow> hosted_by name_to_node host_types contained_in_rel_types n host"

code_pred hosted_by .

text \<open>
  \<open>containment_depth name_to_node host_types contained_in_rel_types n k\<close>: the walk of
  \<open>_extract_node_host_id\<close> from node \<open>n\<close>, which follows the first relationship of the
  contained-in family of each node, ends after \<open>k\<close> nodes: at a node of a host type, or
  at a node without a relationship of that family.  Every target on the way is a node.
\<close>

inductive containment_depth ::
  "(string \<Rightarrow> node option) \<Rightarrow> string set \<Rightarrow> string set \<Rightarrow> node \<Rightarrow> nat \<Rightarrow> bool"
  for name_to_node host_types contained_in_rel_types where
  host: "n_type n \<in> host_types
         \<Longrightarrow> containment_depth name_to_node host_types contained_in_rel_types n (Suc 0)"
| bare: "n_type n \<notin> host_types \<Longrightarrow> n_relationships n = None
         \<Longrightarrow> containment_depth name_to_node host_types contained_in_rel_types n (Suc 0)"
| free: "n_type n \<notin> host_types \<Longrightarrow> n_relationships n = Some node_relationships
         \<Longrightarrow> find (\<lambda>rel. r_type rel \<in> contained_in_rel_types) node_relationships = None
         \<Longrightarrow> containment_depth name_to_node host_types contained_in_rel_types n (Suc 0)"
| climb: "n_type n \<notin> host_types \<Longrightarrow> n_relationships n = Some node_relationships
         \<Longrightarrow> find (\<lambda>rel. r_type rel \<in> contained_in_rel_types) node_relationships = Some rel
         \<Longrightarrow> r_target_id rel = Some target_id \<Longrightarrow> name_to_node target_id = Some target_node
         \<Longrightarrow> containment_depth name_to_node host_types contained_in_rel_types target_node k
         \<Longrightarrow> containment_depth name_to_node host_types contained_in_rel_types n (Suc k)"

code_pred containment_depth .

section \<open>Invariant of the operations table\<close>

text \<open>
  The invariant that the proofs about \<open>_process_context_operations\<close> maintain: the table
  \<open>T\<close> has distinct keys and reflects a set \<open>E\<close> of processed entries (interface name,
  operation name, operation structure).  Every entry is found under its long name; a
  short name without a dot is absent when no entry has it, is bound to the structure of
  its entry when a single interface has it, and is bound to \<open>None\<close> when two interfaces
  have it.
\<close>

definition table_reflects :: "operations_table \<Rightarrow> (string \<times> string \<times> op_struct) set \<Rightarrow> bool" where
  "table_reflects T E \<longleftrightarrow>
     distinct (map fst T) \<and>
     (\<forall>i nm s. (i, nm, s) \<in> E \<longrightarrow> map_of T (i @ ''.'' @ nm) = Some (Some s)) \<and>
     (\<forall>nm. CHR ''.'' \<notin> set nm \<longrightarrow> (\<forall>i s. (i, nm, s) \<notin> E) \<longrightarrow> map_of T nm = None) \<and>
     (\<forall>i nm s. (i, nm, s) \<in> E \<longrightarrow> (\<forall>i' s'. (i', nm, s') \<in> E \<longrightarrow> i' = i)
        \<longrightarrow> map_of T nm = Some (Some s)) \<and>
     (\<forall>i nm s i' s'. (i, nm, s) \<in> E \<longrightarrow> (i', nm, s') \<in> E \<longrightarrow> i' \<noteq> i
        \<longrightarrow> map_of T nm = Some None)"

section \<open>Example environment\<close>

text \<open>
  Concrete values for the parameters of the model, used where a property is evaluated on
  an example: the names of the script plugin as the specification gives them, and a
  resource probe that finds nothing.
\<close>

definition example_constants :: script_constants where
  "example_constants =
     \<lparr>SCRIPT_PLUGIN_NAME = ''script'',
      SCRIPT_PATH_PROPERTY = ''script_path'',
      SCRIPT_PLUGIN_RUN_TASK = ''script_runner.tasks.run'',
      SCRIPT_PLUGIN_EXECUTE_WORKFLOW_TASK = ''script_runner.tasks.execute_workflow''\<rparr>"

definition no_resources :: "string \<Rightarrow> string \<Rightarrow> bool" where
  "no_resources resource_base resource_name = False"

definition example_plugin :: "string \<Rightarrow> yval" where
  "example_plugin plugin_name =
     YDict [(''executor'', YStr ''host_agent''), (''name'', YStr plugin_name)]"

definition example_node :: "string \<Rightarrow> string \<Rightarrow> relationship list option \<Rightarrow> node" where
  "example_node node_name node_type relationships =
     \<lparr>n_name = node_name, n_id = node_name, n_declared_type = node_type, n_type = node_type,
      n_properties = [], n_plugins = Some [], n_operations = None,
      n_relationships = relationships, n_instances = YDict [(''deploy'', YInt 1)],
      n_type_hierarchy = None, n_host_id = None\<rparr>"

definition example_type_implementation :: "string \<Rightarrow> string \<Rightarrow> implementation" where
  "example_type_implementation type_name node_ref =
     \<lparr>impl_type = type_name, impl_node_ref = Some node_ref, impl_source_node_ref = None,
      impl_target_node_ref = None, impl_props = None\<rparr>"

definition example_relationship_implementation ::
  "string \<Rightarrow> string \<Rightarrow> string \<Rightarrow> implementation" where
  "example_relationship_implementation type_name source_node_ref target_node_ref =
     \<lparr>impl_type = type_name, impl_node_ref = None,
      impl_source_node_ref = Some source_node_ref,
      impl_target_node_ref = Some target_node_ref, impl_props = None\<rparr>"

text \<open>
  Stand-ins for the two merge functions, which return the instance's own interfaces and
  properties, and a relationship instance as a node template declares it.
\<close>

definition example_merges :: merge_functions where
  "example_merges =
     \<lparr>merge_relationship_type_and_instance_interfaces =
        (\<lambda>relationship_type relationship_instance.
           Inr ((case r_source_interfaces relationship_instance of None \<Rightarrow> [] | Some i \<Rightarrow> i),
                (case r_target_interfaces relationship_instance of None \<Rightarrow> [] | Some i \<Rightarrow> i))),
      merge_schema_and_instance_properties =
        (\<lambda>instance_properties impl_properties schema_properties node_name.
           Inr instance_properties)\<rparr>"

definition example_relationship :: "string \<Rightarrow> string \<Rightarrow> relationship" where
  "example_relationship type_name target =
     \<lparr>r_type = type_name, r_target = Some target, r_target_id = None,
      r_source_interfaces = None, r_target_interfaces = None, r_properties = None,
      r_state = None, r_base = None, r_type_hierarchy = None,
      r_source_operations = None, r_target_operations = None\<rparr>"

definition example_template :: "string \<Rightarrow> relationship list option \<Rightarrow> node_template" where
  "example_template type_name relationships =
     \<lparr>nt_type = type_name, nt_properties = None, nt_interfaces = None,
      nt_relationships = relationships, nt_instances = None\<rparr>"

definition example_processed_relationship :: "string \<Rightarrow> string \<Rightarrow> relationship" where
  "example_processed_relationship type_name target_id =
     \<lparr>r_type = type_name, r_target = None, r_target_id = Some target_id,
      r_source_interfaces = Some [], r_target_interfaces = Some [], r_properties = Some [],
      r_state = Some ''reachable'', r_base = None, r_type_hierarchy = None,
      r_source_operations = None, r_target_operations = None\<rparr>"

definition no_refs :: "string option \<Rightarrow> yval \<Rightarrow> error + yval" where
  "no_refs path_context filename = Inl (DSLParsingLogicException 31 [])"

definition example_blueprint :: ydict where
  "example_blueprint =
     [(''tosca_definitions_version'', YStr ''cloudify_dsl_1_0''),
      (''imports'', YList [YStr ''a.yaml'']),
      (''plugins'', YDict [(''p'', YDict [])]),
      (''node_templates'', YDict [])]"

text \<open>
  An example registry of intrinsic functions: \<open>{get_property: [node, property]}\<close> parses
  as \<open>get_property\<close>, \<open>{get_input: ...}\<close> as another function; validation accepts
  everything and every property evaluates to a string.
\<close>

definition example_functions :: functions_module where
  "example_functions =
     \<lparr>fn_parse =
        (\<lambda>v. case v of
               PDict [(key, args)] \<Rightarrow>
                 (if key = ''get_property'' then
                    (case args of
                       PList [PStr node_name, PStr property_name] \<Rightarrow>
                         Some (GetProperty node_name [property_name])
                     | _ \<Rightarrow> None)
                  else if key = ''get_input'' then Some OtherFunction
                  else None)
             | _ \<Rightarrow> None),
      fn_validate = (\<lambda>v. None),
      fn_evaluate = (\<lambda>node_name property_path. Inr (PStr ''value'')),
      fn_node_template_name = (\<lambda>node_name. Inr node_name),
      fn_separator = ''.''\<rparr>"

definition example_plan :: pval where
  "example_plan =
     PDict [(''outputs'',
             PDict [(''endpoint'',
                     PDict [(''value'',
                             PDict [(''get_property'', PList [PStr ''web'', PStr ''port''])])]),
                    (''size'', PDict [(''value'', PDict [(''get_input'', PStr ''size'')])])])]"

text \<open>
  A chain of \<open>n\<close> types: the type \<open>chain_name 0\<close> has no \<open>derived_from\<close>, and every other
  type \<open>chain_name i\<close> is derived from \<open>chain_name (i - 1)\<close>.
\<close>

definition chain_name :: "nat \<Rightarrow> string" where
  "chain_name i = CHR ''t'' # replicate i (CHR ''x'')"

definition chain_types :: "nat \<Rightarrow> types_dict" where
  "chain_types n =
     map (\<lambda>i. (chain_name i,
               example_type (if i = 0 then None else Some (chain_name (i - 1)))))
       [0 ..< n]"

chapter \<open>Properties\<close>

section \<open>Longest-prefix plugin match\<close>

lemma startswith_same_length:
  "startswith m (p @ s) \<Longrightarrow> startswith m (q @ s) \<Longrightarrow> length p = length q \<Longrightarrow> p = q"
  unfolding startswith_def
  by (metis append_eq_append_conv length_append)

lemma longest_prefix_loop_max:
  assumes "P \<noteq> []" and "startswith m (P @ ''.'')"
    and "\<forall>Q\<in>set names. startswith m (Q @ ''.'') \<longrightarrow> length Q \<le> length P"
    and "P \<in> set names \<or> (n = length P \<and> cur = Some P)"
    and "n \<le> length P" and "n = length P \<longrightarrow> cur = Some P"
  shows "longest_prefix_loop m names (n, cur) = (length P, Some P)"
  using assms
proof (induction names arbitrary: n cur)
  case Nil
  then show ?case by simp
next
  case (Cons x rest)
  show ?case
  proof (cases "startswith m (x @ ''.'') \<and> length x > n")
    case True
    then have le: "length x \<le> length P" using Cons.prems(3) by simp
    show ?thesis
    proof (cases "length x = length P")
      case eq: True
      then have "x = P" using startswith_same_length True Cons.prems(2) by blast
      then show ?thesis using True Cons.IH[of "length x" "Some x"] Cons.prems by simp
    next
      case False
      then have "x \<noteq> P" by auto
      then have "P \<in> set rest" using Cons.prems(4) True le by auto
      then show ?thesis using True False le Cons.IH[of "length x" "Some x"] Cons.prems by simp
    qed
  next
    case False
    have "P \<in> set rest \<or> (n = length P \<and> cur = Some P)"
    proof (cases "x = P")
      case True
      then have "\<not> length P > n" using False Cons.prems(2) by simp
      then show ?thesis using Cons.prems(5,6) by simp
    next
      case False
      then show ?thesis using Cons.prems(4) by auto
    qed
    then show ?thesis using False Cons.IH[of n cur] Cons.prems by auto
  qed
qed

text \<open>
  Claim C1, as amended.  Let the declared plugin names be the keys of \<open>plugins\<close> and let
  the operation mapping \<open>m\<close> be non-empty, given as a string or in the mapping field of
  an operation dictionary.  If \<open>P\<close> is a declared plugin name, \<^emph>\<open>not the empty string\<close>,
  such that \<open>m\<close> starts with \<open>P\<close> followed by a dot, and no declared name with that
  property is longer, then the binder returns a descriptor bound to plugin \<open>P\<close> whose
  operation is the rest of \<open>m\<close> after that dot.
\<close>

theorem plugin_binder_longest_prefix:
  assumes "operation_mapping \<noteq> []"
    and "operation_content = OpStr operation_mapping \<or>
         (\<exists>d. operation_content = OpDict d \<and>
              (if is_workflows then spec_mapping d else spec_implementation d)
                = Some operation_mapping)"
    and "plugin_names = map fst plugins"
    and "P \<in> set plugin_names" and "P \<noteq> []"
    and "startswith operation_mapping (P @ ''.'')"
    and "\<forall>Q\<in>set plugin_names.
           startswith operation_mapping (Q @ ''.'') \<longrightarrow> length Q \<le> length P"
  shows "\<exists>d. extract_plugin_name_and_operation_mapping_from_operation consts resource_exists
               plugins plugin_names operation_name operation_content error_code
               partial_error_message resource_base is_workflows = Inr d
             \<and> od_name d = operation_name
             \<and> os_plugin (od_op_struct d) = P
             \<and> map_of plugins P = Some (od_plugin d)
             \<and> os_operation (od_op_struct d) = drop (length P + 1) operation_mapping
             \<and> operation_mapping = P @ ''.'' @ os_operation (od_op_struct d)"
proof -
  have loop: "longest_prefix_loop operation_mapping plugin_names (0, None) = (length P, Some P)"
    using longest_prefix_loop_max[of P operation_mapping plugin_names 0 None] assms by simp
  obtain plugin where plugin: "map_of plugins P = Some plugin"
    using assms(3,4) by (metis image_set map_of_eq_None_iff not_Some_eq)
  have m: "(case operation_content of
              OpStr s \<Rightarrow> s
            | OpDict d \<Rightarrow>
                (case (if is_workflows then spec_mapping d else spec_implementation d) of
                   None \<Rightarrow> ''''
                 | Some s \<Rightarrow> s)) = operation_mapping"
    using assms(2) by auto
  have split: "operation_mapping = P @ ''.'' @ drop (length P + 1) operation_mapping"
    using assms(6) unfolding startswith_def
    by (metis append.assoc append_take_drop_id length_append list.size(3,4) One_nat_def add.right_neutral add_Suc_right)
  show ?thesis
    unfolding extract_plugin_name_and_operation_mapping_from_operation_def Let_def m
    using assms(1) loop plugin split by (simp add: operation_struct_def)
qed

text \<open>
  The scenario of the specification: plugins \<open>a\<close> and \<open>a.b\<close>, mapping \<open>a.b.run\<close>.
\<close>

theorem plugin_binder_longest_prefix_witness:
  "\<exists>d. extract_plugin_name_and_operation_mapping_from_operation example_constants no_resources
          [(''a'', example_plugin ''a''), (''a.b'', example_plugin ''a.b'')] [''a'', ''a.b'']
          ''start'' (OpStr ''a.b.run'') 10 ''in node n'' None False = Inr d
        \<and> os_plugin (od_op_struct d) = ''a.b''
        \<and> os_operation (od_op_struct d) = ''run''"
  using plugin_binder_longest_prefix[of "''a.b.run''" "OpStr ''a.b.run''" False
      "[''a'', ''a.b'']" "[(''a'', example_plugin ''a''), (''a.b'', example_plugin ''a.b'')]"
      "''a.b''" example_constants no_resources "''start''" 10 "''in node n''" None]
  by (auto simp: startswith_def)

text \<open>
  The claim as stated, for every set of plugin names, fails for a plugin whose name is the
  empty string: the loop starts from \<open>longest_prefix = 0\<close> and accepts only a strictly
  longer name, so the mapping \<open>.run\<close> is not bound to the declared plugin \<open>''\<close>
  although it starts with that name followed by a dot; with no resource base the binder
  raises the caller's error.
\<close>

theorem plugin_binder_empty_name_counterexample:
  "startswith ''.run'' ('''' @ ''.'')
   \<and> extract_plugin_name_and_operation_mapping_from_operation example_constants no_resources
       [('''', example_plugin '''')] [''''] ''start'' (OpStr ''.run'') 10 ''in node n'' None False
     = Inl (DSLParsingLogicException 10 [''.run'', ''start'', ''operation'', ''in node n''])"
  by (simp add: startswith_def extract_plugin_name_and_operation_mapping_from_operation_def)


section \<open>Workflows with an empty mapping\<close>

text \<open>
  Claim C8.  A workflow whose mapping is the empty string, or a mapping dictionary without
  the field \<open>mapping\<close>, is processed without error into an operation structure whose
  plugin is the empty string; unless a plugin of that name is declared, the computation
  of \<open>workflow_plugins_to_install\<close> then fails on \<open>plugins['']\<close> with a \<open>KeyError\<close>,
  which is neither of the parser's two exception classes.
\<close>

theorem workflow_empty_mapping_key_error:
  assumes "'''' \<notin> fst ` set plugins"
    and "mapping = OpStr '''' \<or> (\<exists>d. mapping = OpDict d \<and> spec_mapping d = None)"
  shows "\<exists>processed_workflows op_struct.
           process_workflows consts resource_exists [(name, mapping)] plugins resource_base
             = Inr processed_workflows
         \<and> map_of processed_workflows name = Some op_struct
         \<and> os_plugin op_struct = '''' \<and> os_operation op_struct = ''''
         \<and> create_plan_workflow_plugins processed_workflows plugins = Inl (KeyError '''')"
proof -
  have none: "map_of plugins '''' = None"
    using assms(1) by (simp add: map_of_eq_None_iff)
  have "extract_plugin_name_and_operation_mapping_from_operation consts resource_exists
          plugins (map fst plugins) name mapping 21 '''' resource_base True
        = Inr \<lparr>od_plugin = YStr '''',
               od_op_struct = operation_struct '''' '''' (Some []) ''parameters'',
               od_name = name\<rparr>"
    using assms(2)
    by (auto simp: extract_plugin_name_and_operation_mapping_from_operation_def)
  then have "process_workflows consts resource_exists [(name, mapping)] plugins resource_base
        = Inr [(name, operation_struct '''' '''' (Some []) ''parameters'')]"
    by (simp add: process_workflows_def)
  moreover have "create_plan_workflow_plugins
        [(name, operation_struct '''' '''' (Some []) ''parameters'')] plugins
        = Inl (KeyError '''')"
    using none by (simp add: create_plan_workflow_plugins_def operation_struct_def)
  ultimately show ?thesis
    by (simp add: operation_struct_def)
qed

text \<open>One such input: the single workflow \<open>install: ''\<close> beside a declared plugin \<open>p\<close>.\<close>

theorem workflow_empty_mapping_key_error_witness:
  "process_workflows example_constants no_resources [(''install'', OpStr '''')]
     [(''p'', example_plugin ''p'')] None
     = Inr [(''install'',
             \<lparr>os_plugin = '''', os_operation = '''',
              os_properties = Some (''parameters'', [])\<rparr>)]
   \<and> create_plan_workflow_plugins
       [(''install'',
         \<lparr>os_plugin = '''', os_operation = '''', os_properties = Some (''parameters'', [])\<rparr>)]
       [(''p'', example_plugin ''p'')]
     = Inl (KeyError '''')"
  using workflow_empty_mapping_key_error[of "[(''p'', example_plugin ''p'')]" "OpStr ''''"
      example_constants no_resources "''install''" None]
  by (simp add: process_workflows_def create_plan_workflow_plugins_def
      extract_plugin_name_and_operation_mapping_from_operation_def operation_struct_def)


section \<open>Depth of the hierarchy computations\<close>

text \<open>
  Each type on the derivation chain costs one frame.  A chain of \<open>k\<close> types is walked to
  its root when at least \<open>k\<close> frames are left, and otherwise the recursion reaches the
  bound of the interpreter.
\<close>

lemma create_type_hierarchy_within:
  assumes "hierarchy_depth types type_name k" and "k \<le> frames"
  shows "\<exists>h. create_type_hierarchy frames type_name types = Inr h
             \<and> length h = k \<and> h \<noteq> [] \<and> last h = type_name
             \<and> (\<exists>t. map_of types (hd h) = Some t \<and> derived_from t = None)
             \<and> (\<forall>i. Suc i < length h \<longrightarrow>
                   (\<exists>t. map_of types (h ! Suc i) = Some t \<and> derived_from t = Some (h ! i)))
             \<and> (\<forall>d. is_derived_from frames type_name types d = Inr (d \<in> set h))"
  using assms
proof (induction arbitrary: frames rule: hierarchy_depth.induct)
  case (root types type_name t)
  then obtain f where "frames = Suc f" by (cases frames) auto
  then show ?case using root by auto
next
  case (derived types type_name t parent k)
  from derived.prems obtain f where f: "frames = Suc f" "k \<le> f" by (cases frames) auto
  from derived.IH[OF f(2)] obtain h where h: "create_type_hierarchy f parent types = Inr h"
    "length h = k" "h \<noteq> []" "last h = parent"
    "\<exists>t. map_of types (hd h) = Some t \<and> derived_from t = None"
    "\<forall>i. Suc i < length h \<longrightarrow>
        (\<exists>t. map_of types (h ! Suc i) = Some t \<and> derived_from t = Some (h ! i))"
    "\<forall>d. is_derived_from f parent types d = Inr (d \<in> set h)"
    by blast
  have c: "create_type_hierarchy frames type_name types = Inr (h @ [type_name])"
    using derived.hyps h(1) f(1) by simp
  have adj: "\<exists>t. map_of types ((h @ [type_name]) ! Suc i) = Some t
                \<and> derived_from t = Some ((h @ [type_name]) ! i)"
    if "Suc i < length (h @ [type_name])" for i
  proof (cases "Suc i < length h")
    case True
    then show ?thesis using h(6) by (simp add: nth_append)
  next
    case False
    then have "Suc i = length h" using that by simp
    then have "i = length h - 1" by simp
    then have "(h @ [type_name]) ! Suc i = type_name" "(h @ [type_name]) ! i = parent"
      using h(3,4) \<open>Suc i = length h\<close> by (auto simp: nth_append last_conv_nth)
    then show ?thesis using derived.hyps by simp
  qed
  have d: "is_derived_from frames type_name types d = Inr (d \<in> set (h @ [type_name]))" for d
    using derived.hyps h(7) f(1) by auto
  show ?case
    using c h(2,3,5) adj d by (intro exI[of _ "h @ [type_name]"]) (simp add: hd_append)
qed

lemma create_type_hierarchy_beyond:
  assumes "hierarchy_depth types type_name k" and "frames < k"
  shows "create_type_hierarchy frames type_name types = Inl maximum_recursion_depth_exceeded"
  using assms
proof (induction arbitrary: frames rule: hierarchy_depth.induct)
  case (root types type_name t)
  then show ?case by simp
next
  case (derived types type_name t parent k)
  show ?case
  proof (cases frames)
    case 0
    then show ?thesis by simp
  next
    case (Suc f)
    then have "f < k" using derived.prems by simp
    then show ?thesis using derived.IH[of f] derived.hyps Suc by simp
  qed
qed

lemma is_derived_from_beyond:
  assumes "hierarchy_depth types type_name k" and "frames < k"
  shows "is_derived_from frames type_name types d = Inl maximum_recursion_depth_exceeded
         \<or> is_derived_from frames type_name types d = Inr True"
  using assms
proof (induction arbitrary: frames rule: hierarchy_depth.induct)
  case (root types type_name t)
  then show ?case by simp
next
  case (derived types type_name t parent k)
  show ?case
  proof (cases frames)
    case 0
    then show ?thesis by simp
  next
    case (Suc f)
    then have "f < k" using derived.prems by simp
    then show ?thesis using derived.IH[of f] derived.hyps Suc by auto
  qed
qed

text \<open>
  Neither function detects a cycle.  A list is returned, and the answer \<open>False\<close> is given,
  only at the root of a finite chain; on a cyclic chain the recursion ends at the bound
  of the interpreter, unless \<open>_is_derived_from\<close> meets the candidate ancestor first.
\<close>

lemma create_type_hierarchy_returns_only_on_finite_chain:
  "create_type_hierarchy frames type_name types = Inr h
   \<Longrightarrow> \<exists>k \<le> frames. hierarchy_depth types type_name k"
proof (induction frames arbitrary: type_name h)
  case 0
  then show ?case by simp
next
  case (Suc frames)
  from Suc.prems obtain t where t: "map_of types type_name = Some t"
    by (auto split: option.splits)
  show ?case
  proof (cases "derived_from t")
    case None
    then have "hierarchy_depth types type_name (Suc 0)"
      using t hierarchy_depth.root by blast
    then show ?thesis by auto
  next
    case (Some parent)
    with Suc.prems t obtain h' where "create_type_hierarchy frames parent types = Inr h'"
      by (auto split: sum.splits)
    from Suc.IH[OF this] obtain k where "k \<le> frames" "hierarchy_depth types parent k"
      by blast
    then have "Suc k \<le> Suc frames" "hierarchy_depth types type_name (Suc k)"
      using t Some hierarchy_depth.derived by auto
    then show ?thesis by blast
  qed
qed

lemma is_derived_from_false_only_on_finite_chain:
  "is_derived_from frames type_name types d = Inr False
   \<Longrightarrow> \<exists>k \<le> frames. hierarchy_depth types type_name k"
proof (induction frames arbitrary: type_name)
  case 0
  then show ?case by simp
next
  case (Suc frames)
  from Suc.prems have ne: "type_name \<noteq> d" by (auto split: if_splits)
  with Suc.prems obtain t where t: "map_of types type_name = Some t"
    by (auto split: option.splits)
  show ?case
  proof (cases "derived_from t")
    case None
    then have "hierarchy_depth types type_name (Suc 0)"
      using t hierarchy_depth.root by blast
    then show ?thesis by auto
  next
    case (Some parent)
    with Suc.prems t ne have "is_derived_from frames parent types d = Inr False" by simp
    from Suc.IH[OF this] obtain k where "k \<le> frames" "hierarchy_depth types parent k"
      by blast
    then have "Suc k \<le> Suc frames" "hierarchy_depth types type_name (Suc k)"
      using t Some hierarchy_depth.derived by auto
    then show ?thesis by blast
  qed
qed

text \<open>
  Claim C10, as amended.  For a type whose \<open>derived_from\<close> chain is finite and acyclic,
  with \<open>k\<close> types on it, and a call at which the interpreter can still push at least \<open>k\<close>
  frames, both recursive computations return.  \<open>_create_type_hierarchy\<close> returns a list
  of the \<open>k\<close> types that ends in the queried type name and is root first: its head has no
  \<open>derived_from\<close> and every later entry is derived from the entry before it.
  \<open>_is_derived_from\<close> returns a boolean for every candidate ancestor, namely whether the
  candidate occurs in that list.  With fewer than \<open>k\<close> frames left
  \<open>_create_type_hierarchy\<close> raises \<open>RuntimeError\<close> (maximum recursion depth exceeded), and
  so does \<open>_is_derived_from\<close> unless it meets the candidate first.  Neither function
  detects a cycle: on a chain that is not finite \<open>_create_type_hierarchy\<close> returns no
  value and \<open>_is_derived_from\<close> never answers \<open>False\<close>.
\<close>

theorem type_hierarchy_total_on_finite_chains:
  "(hierarchy_depth types type_name k \<and> k \<le> frames \<longrightarrow>
      (\<exists>h. create_type_hierarchy frames type_name types = Inr h
           \<and> length h = k \<and> h \<noteq> [] \<and> last h = type_name
           \<and> (\<exists>t. map_of types (hd h) = Some t \<and> derived_from t = None)
           \<and> (\<forall>i. Suc i < length h \<longrightarrow>
                 (\<exists>t. map_of types (h ! Suc i) = Some t \<and> derived_from t = Some (h ! i)))
           \<and> (\<forall>d. is_derived_from frames type_name types d = Inr (d \<in> set h))))
   \<and> (hierarchy_depth types type_name k \<and> frames < k \<longrightarrow>
        create_type_hierarchy frames type_name types = Inl maximum_recursion_depth_exceeded
        \<and> (\<forall>d. is_derived_from frames type_name types d
                   = Inl maximum_recursion_depth_exceeded
                 \<or> is_derived_from frames type_name types d = Inr True))
   \<and> ((\<forall>j. \<not> hierarchy_depth types type_name j) \<longrightarrow>
        (\<exists>e. create_type_hierarchy frames type_name types = Inl e)
        \<and> (\<forall>d. is_derived_from frames type_name types d \<noteq> Inr False))"
proof (intro conjI impI)
  assume "hierarchy_depth types type_name k \<and> k \<le> frames"
  then show "\<exists>h. create_type_hierarchy frames type_name types = Inr h
           \<and> length h = k \<and> h \<noteq> [] \<and> last h = type_name
           \<and> (\<exists>t. map_of types (hd h) = Some t \<and> derived_from t = None)
           \<and> (\<forall>i. Suc i < length h \<longrightarrow>
                 (\<exists>t. map_of types (h ! Suc i) = Some t \<and> derived_from t = Some (h ! i)))
           \<and> (\<forall>d. is_derived_from frames type_name types d = Inr (d \<in> set h))"
    using create_type_hierarchy_within by blast
next
  assume "hierarchy_depth types type_name k \<and> frames < k"
  then show "create_type_hierarchy frames type_name types
             = Inl maximum_recursion_depth_exceeded"
    using create_type_hierarchy_beyond by blast
next
  assume "hierarchy_depth types type_name k \<and> frames < k"
  then show "\<forall>d. is_derived_from frames type_name types d
                   = Inl maximum_recursion_depth_exceeded
                 \<or> is_derived_from frames type_name types d = Inr True"
    using is_derived_from_beyond by blast
next
  assume none: "\<forall>j. \<not> hierarchy_depth types type_name j"
  show "\<exists>e. create_type_hierarchy frames type_name types = Inl e"
  proof (cases "create_type_hierarchy frames type_name types")
    case (Inl e)
    then show ?thesis by blast
  next
    case (Inr h)
    then show ?thesis
      using create_type_hierarchy_returns_only_on_finite_chain none by blast
  qed
next
  assume none: "\<forall>j. \<not> hierarchy_depth types type_name j"
  show "\<forall>d. is_derived_from frames type_name types d \<noteq> Inr False"
    using is_derived_from_false_only_on_finite_chain none by blast
qed

lemma self_derived_has_no_depth:
  "\<not> hierarchy_depth [(''a'', example_type (Some ''a''))] ''a'' k"
proof (induction k)
  case 0
  show ?case by (auto elim: hierarchy_depth.cases)
next
  case (Suc k)
  show ?case
  proof
    assume "hierarchy_depth [(''a'', example_type (Some ''a''))] ''a'' (Suc k)"
    then have "hierarchy_depth [(''a'', example_type (Some ''a''))] ''a'' k"
      by (cases rule: hierarchy_depth.cases) (auto simp: example_type_def)
    then show False using Suc by simp
  qed
qed

theorem type_hierarchy_total_on_finite_chains_witness:
  "create_type_hierarchy 2 ''b'' [(''a'', example_type None), (''b'', example_type (Some ''a''))]
     = Inr [''a'', ''b'']
   \<and> is_derived_from 2 ''b'' [(''a'', example_type None), (''b'', example_type (Some ''a''))]
       ''a'' = Inr True
   \<and> is_derived_from 2 ''b'' [(''a'', example_type None), (''b'', example_type (Some ''a''))]
       ''c'' = Inr False
   \<and> create_type_hierarchy 1 ''b''
       [(''a'', example_type None), (''b'', example_type (Some ''a''))]
     = Inl maximum_recursion_depth_exceeded
   \<and> create_type_hierarchy 3 ''a'' [(''a'', example_type (Some ''a''))]
     = Inl maximum_recursion_depth_exceeded
   \<and> is_derived_from 3 ''a'' [(''a'', example_type (Some ''a''))] ''c''
     = Inl maximum_recursion_depth_exceeded"
proof -
  let ?types = "[(''a'', example_type None), (''b'', example_type (Some ''a''))]"
  have a: "hierarchy_depth ?types ''a'' (Suc 0)"
    by (rule hierarchy_depth.root[where t = "example_type None"])
      (simp_all add: example_type_def)
  have b: "hierarchy_depth ?types ''b'' 2"
    using hierarchy_depth.derived[where t = "example_type (Some ''a'')", OF _ _ a]
    by (simp add: example_type_def numeral_2_eq_2)
  show ?thesis
    using type_hierarchy_total_on_finite_chains[of ?types "''b''" 2 2]
      type_hierarchy_total_on_finite_chains[of ?types "''b''" 2 1]
      type_hierarchy_total_on_finite_chains
        [of "[(''a'', example_type (Some ''a''))]" "''a''" 0 3]
      b self_derived_has_no_depth
    by (simp add: example_type_def numeral_2_eq_2 numeral_3_eq_3)
qed

text \<open>
  The claim as stated fails on a finite, acyclic chain that is longer than the stack of
  the interpreter.  In the types \<open>chain_types 1500\<close> every type but the root is derived
  from the one before it, so the chain of the last type has 1500 types.  Even with 1000
  frames left, which is the whole stack of the interpreter as it is delivered, both
  functions raise instead of returning.
\<close>

lemma chain_name_inject: "chain_name i = chain_name j \<longleftrightarrow> i = j"
proof
  assume "chain_name i = chain_name j"
  then have "length (chain_name i) = length (chain_name j)" by simp
  then show "i = j" by (simp add: chain_name_def)
qed simp

lemma chain_types_lookup:
  assumes "i < n"
  shows "map_of (chain_types n) (chain_name i)
         = Some (example_type (if i = 0 then None else Some (chain_name (i - 1))))"
proof -
  have "distinct (map fst (chain_types n))"
    by (simp add: chain_types_def distinct_map o_def inj_on_def chain_name_inject)
  moreover have "(chain_name i, example_type (if i = 0 then None else Some (chain_name (i - 1))))
                 \<in> set (chain_types n)"
    using assms by (auto simp: chain_types_def)
  ultimately show ?thesis by (rule map_of_is_SomeI)
qed

lemma chain_types_depth:
  "i < n \<Longrightarrow> hierarchy_depth (chain_types n) (chain_name i) (Suc i)"
proof (induction i)
  case 0
  then show ?case
    using chain_types_lookup[of 0 n]
    by (intro hierarchy_depth.root[where t = "example_type None"])
      (simp_all add: example_type_def)
next
  case (Suc i)
  then have d: "hierarchy_depth (chain_types n) (chain_name i) (Suc i)" by simp
  have l: "map_of (chain_types n) (chain_name (Suc i))
           = Some (example_type (Some (chain_name i)))"
    using chain_types_lookup[OF Suc.prems] by simp
  show ?case
    by (rule hierarchy_depth.derived[OF l _ d]) (simp add: example_type_def)
qed

lemma chain_types_is_derived_from:
  "i < n \<Longrightarrow> frames \<le> i
   \<Longrightarrow> is_derived_from frames (chain_name i) (chain_types n) ''base''
       = Inl maximum_recursion_depth_exceeded"
proof (induction frames arbitrary: i)
  case 0
  show ?case by simp
next
  case (Suc frames)
  then obtain j where j: "i = Suc j" by (cases i) auto
  have ne: "chain_name i \<noteq> ''base''" by (simp add: chain_name_def)
  have "is_derived_from frames (chain_name j) (chain_types n) ''base''
        = Inl maximum_recursion_depth_exceeded"
    using Suc.IH[of j] Suc.prems j by simp
  then show ?case
    using chain_types_lookup[OF Suc.prems(1)] ne j by (simp add: example_type_def)
qed

theorem type_hierarchy_deep_chain_counterexample:
  "hierarchy_depth (chain_types 1500) (chain_name 1499) 1500
   \<and> create_type_hierarchy 1000 (chain_name 1499) (chain_types 1500)
     = Inl maximum_recursion_depth_exceeded
   \<and> is_derived_from 1000 (chain_name 1499) (chain_types 1500) ''base''
     = Inl maximum_recursion_depth_exceeded"
proof -
  have d: "hierarchy_depth (chain_types 1500) (chain_name 1499) 1500"
    using chain_types_depth[of 1499 1500] by simp
  show ?thesis
    using d create_type_hierarchy_beyond[OF d, of 1000]
      chain_types_is_derived_from[of 1499 1500 1000]
    by simp
qed

section \<open>Short and long operation names\<close>

lemma binder_name:
  "extract_plugin_name_and_operation_mapping_from_operation consts resource_exists plugins
     plugin_names operation_name operation_content error_code partial_error_message
     resource_base is_workflows = Inr d \<Longrightarrow> od_name d = operation_name"
  unfolding extract_plugin_name_and_operation_mapping_from_operation_def Let_def
  by (auto split: if_splits prod.splits option.splits)

lemma long_name_not_short:
  "CHR ''.'' \<notin> set operation_name \<Longrightarrow> i @ ''.'' @ nm \<noteq> operation_name"
  by auto

lemma long_name_inject:
  assumes "i @ ''.'' @ nm = i' @ ''.'' @ nm'" and "CHR ''.'' \<notin> set nm" and "CHR ''.'' \<notin> set nm'"
  shows "i = i' \<and> nm = nm'"
proof -
  have "takeWhile (\<lambda>c. c \<noteq> CHR ''.'') (rev (j @ ''.'' @ p)) = rev p"
    if "CHR ''.'' \<notin> set p" for j p
    using that by (simp, subst takeWhile_append2) auto
  then have "rev nm = rev nm'" using assms by metis
  then show ?thesis using assms(1) by simp
qed

lemma record_operation_distinct:
  "distinct (map fst T) \<Longrightarrow> distinct (map fst (record_operation i nm s T))"
  by (simp add: record_operation_def distinct_update)

lemma record_operation_lookup:
  "map_of (record_operation i nm s T) k =
     (if k = i @ ''.'' @ nm then Some (Some s)
      else if k = nm then (if map_of T nm = None then Some (Some s) else Some None)
      else map_of T k)"
  by (auto simp: record_operation_def update_conv' map_of_eq_None_iff)

lemma record_operation_reflects:
  assumes T: "table_reflects T E"
    and nodot: "CHR ''.'' \<notin> set nm" and E: "\<forall>(i', nm', s') \<in> E. CHR ''.'' \<notin> set nm'"
    and new: "\<forall>s'. (i, nm, s') \<notin> E"
  shows "table_reflects (record_operation i nm s T) (insert (i, nm, s) E)"
  unfolding table_reflects_def
proof (intro conjI allI impI)
  show "distinct (map fst (record_operation i nm s T))"
    using T by (simp add: table_reflects_def record_operation_distinct)
next
  fix i' nm' s' assume "(i', nm', s') \<in> insert (i, nm, s) E"
  then show "map_of (record_operation i nm s T) (i' @ ''.'' @ nm') = Some (Some s')"
  proof
    assume "(i', nm', s') = (i, nm, s)"
    then show ?thesis by (simp add: record_operation_lookup)
  next
    assume in_E: "(i', nm', s') \<in> E"
    then have nd: "CHR ''.'' \<notin> set nm'" using E by auto
    have "i' @ ''.'' @ nm' \<noteq> i @ ''.'' @ nm"
      using long_name_inject[OF _ nd nodot] in_E new by blast
    moreover have "i' @ ''.'' @ nm' \<noteq> nm" using nodot by auto
    moreover have "map_of T (i' @ ''.'' @ nm') = Some (Some s')"
      using T in_E by (auto simp: table_reflects_def)
    ultimately show ?thesis by (simp add: record_operation_lookup)
  qed
next
  fix nm' assume nd: "CHR ''.'' \<notin> set nm'" and none: "\<forall>i' s'. (i', nm', s') \<notin> insert (i, nm, s) E"
  then have "nm' \<noteq> nm" by auto
  moreover have "nm' \<noteq> i @ ''.'' @ nm" using nd by auto
  moreover have "map_of T nm' = None" using T nd none by (auto simp: table_reflects_def)
  ultimately show "map_of (record_operation i nm s T) nm' = None"
    by (simp add: record_operation_lookup)
next
  fix i' nm' s'
  assume mem: "(i', nm', s') \<in> insert (i, nm, s) E"
    and only: "\<forall>i'' s''. (i'', nm', s'') \<in> insert (i, nm, s) E \<longrightarrow> i'' = i'"
  have nd: "CHR ''.'' \<notin> set nm'" using mem nodot E by auto
  then have ne: "nm' \<noteq> i @ ''.'' @ nm" by auto
  show "map_of (record_operation i nm s T) nm' = Some (Some s')"
  proof (cases "nm' = nm")
    case True
    then have i': "i' = i" using only by auto
    then have s': "s' = s" using mem new True by auto
    have "\<forall>i'' s''. (i'', nm, s'') \<notin> E" using only True i' new by blast
    then have "map_of T nm = None" using T nodot by (auto simp: table_reflects_def)
    then show ?thesis using True s' ne by (simp add: record_operation_lookup)
  next
    case False
    then have "(i', nm', s') \<in> E" using mem by auto
    moreover have "\<forall>i'' s''. (i'', nm', s'') \<in> E \<longrightarrow> i'' = i'" using only by auto
    ultimately have "map_of T nm' = Some (Some s')" using T
      unfolding table_reflects_def by blast
    then show ?thesis using False ne by (simp add: record_operation_lookup)
  qed
next
  fix i1 nm' s1 i2 s2
  assume m1: "(i1, nm', s1) \<in> insert (i, nm, s) E" and m2: "(i2, nm', s2) \<in> insert (i, nm, s) E"
    and diff: "i2 \<noteq> i1"
  have nd: "CHR ''.'' \<notin> set nm'" using m1 nodot E by auto
  then have ne: "nm' \<noteq> i @ ''.'' @ nm" by auto
  show "map_of (record_operation i nm s T) nm' = Some None"
  proof (cases "nm' = nm")
    case True
    then obtain j sj where "(j, nm, sj) \<in> E" using m1 m2 diff by auto
    then have "map_of T nm \<noteq> None"
      using T unfolding table_reflects_def
      by (metis option.distinct(1))
    then show ?thesis using True ne by (simp add: record_operation_lookup)
  next
    case False
    then have "(i1, nm', s1) \<in> E" "(i2, nm', s2) \<in> E" using m1 m2 by auto
    then have "map_of T nm' = Some None" using T diff unfolding table_reflects_def by blast
    then show ?thesis using False ne by (simp add: record_operation_lookup)
  qed
qed

lemma context_operations_inner_table:
  "context_operations_inner i ds (T, n) = Inr (T', n')
   \<Longrightarrow> T' = fold (\<lambda>d. record_operation i (od_name d) (od_op_struct d)) ds T"
proof (induction ds arbitrary: T n)
  case Nil
  then show ?case by simp
next
  case (Cons d ds)
  then show ?case
    by (auto simp: Let_def split: if_splits option.splits sum.splits)
qed

lemma extract_from_interface_loop_all2:
  "extract_from_interface_loop consts rex ops plugins plugin_names ec msg rb acc = Inr ds
   \<Longrightarrow> \<exists>ds'. ds = acc @ ds' \<and>
         list_all2 (\<lambda>(nm, c) d.
           extract_plugin_name_and_operation_mapping_from_operation consts rex plugins
             plugin_names nm c ec msg rb False = Inr d) ops ds'"
proof (induction ops arbitrary: acc)
  case Nil
  then show ?case by simp
next
  case (Cons x ops)
  obtain nm c where x: "x = (nm, c)" by (cases x)
  from Cons.prems x obtain d where
    d: "extract_plugin_name_and_operation_mapping_from_operation consts rex plugins
          plugin_names nm c ec msg rb False = Inr d"
    and rest: "extract_from_interface_loop consts rex ops plugins plugin_names ec msg rb
          (acc @ [d]) = Inr ds"
    by (auto split: sum.splits)
  from Cons.IH[OF rest] obtain ds' where "ds = (acc @ [d]) @ ds'"
    "list_all2 (\<lambda>(nm, c) d.
           extract_plugin_name_and_operation_mapping_from_operation consts rex plugins
             plugin_names nm c ec msg rb False = Inr d) ops ds'"
    by blast
  then show ?case using d x by (intro exI[of _ "d # ds'"]) simp
qed

lemma fold_record_operation_reflects:
  assumes "list_all2 (\<lambda>(nm, c) d. B nm c = Inr d) ops ds"
    and "\<And>nm c d. B nm c = Inr d \<Longrightarrow> od_name d = nm"
    and "distinct (map fst ops)"
    and "\<forall>(nm, c) \<in> set ops. CHR ''.'' \<notin> set nm"
    and "table_reflects T E"
    and "\<forall>(i', nm', s') \<in> E. CHR ''.'' \<notin> set nm'"
    and "\<forall>nm \<in> fst ` set ops. \<forall>s. (i, nm, s) \<notin> E"
  shows "table_reflects (fold (\<lambda>d. record_operation i (od_name d) (od_op_struct d)) ds T)
           (E \<union> {(i, nm, od_op_struct d) | nm c d. (nm, c) \<in> set ops \<and> B nm c = Inr d})"
  using assms(1,3-)
proof (induction ops ds arbitrary: T E rule: list_all2_induct)
  case Nil
  then show ?case by simp
next
  case (Cons x ops d ds)
  obtain nm c where x: "x = (nm, c)" by (cases x)
  have Bd: "B nm c = Inr d" using Cons.hyps(1) x by simp
  then have name: "od_name d = nm" using assms(2) by simp
  let ?T1 = "record_operation i nm (od_op_struct d) T"
  let ?E1 = "insert (i, nm, od_op_struct d) E"
  have nodot: "CHR ''.'' \<notin> set nm" using Cons.prems(2) x by simp
  have step: "table_reflects ?T1 ?E1"
    using record_operation_reflects[OF Cons.prems(3) nodot Cons.prems(4)] Cons.prems(5) x
    by simp
  have E1: "\<forall>(i', nm', s') \<in> ?E1. CHR ''.'' \<notin> set nm'"
    using Cons.prems(4) nodot by simp
  have fresh: "\<forall>nm' \<in> fst ` set ops. \<forall>s. (i, nm', s) \<notin> ?E1"
    using Cons.prems(1,5) x by force
  have IH: "table_reflects (fold (\<lambda>d. record_operation i (od_name d) (od_op_struct d)) ds ?T1)
      (?E1 \<union> {(i, nm, od_op_struct d) | nm c d. (nm, c) \<in> set ops \<and> B nm c = Inr d})"
    using Cons.IH[OF _ _ step E1 fresh] Cons.prems(1,2) by simp
  have "?E1 \<union> {(i, nm, od_op_struct d) | nm c d. (nm, c) \<in> set ops \<and> B nm c = Inr d}
      = E \<union> {(i, nm, od_op_struct d) | nm c d. (nm, c) \<in> set (x # ops) \<and> B nm c = Inr d}"
    using Bd x by auto
  then show ?case using IH name by simp
qed

lemma context_operations_outer_reflects:
  fixes cs rex plugins ec msg rb
  defines "B \<equiv> \<lambda>i nm c. extract_plugin_name_and_operation_mapping_from_operation cs rex
      plugins (map fst plugins) nm c ec (''In interface '' @ i @ '' '' @ msg) rb False"
  assumes "context_operations_outer cs rex msg interfaces plugins ec rb (T, n) = Inr (T', n')"
    and "distinct (map fst interfaces)"
    and "\<forall>(i, iface) \<in> set interfaces. distinct (map fst iface)"
    and "\<forall>(i, iface) \<in> set interfaces. \<forall>(nm, c) \<in> set iface. CHR ''.'' \<notin> set nm"
    and "table_reflects T E"
    and "\<forall>(i', nm', s') \<in> E. CHR ''.'' \<notin> set nm'"
    and "\<forall>i \<in> fst ` set interfaces. \<forall>nm s. (i, nm, s) \<notin> E"
  shows "table_reflects T'
           (E \<union> {(i, nm, od_op_struct d) | i iface nm c d.
                   (i, iface) \<in> set interfaces \<and> (nm, c) \<in> set iface \<and> B i nm c = Inr d})
         \<and> (\<forall>(i, iface) \<in> set interfaces. \<forall>(nm, c) \<in> set iface. \<exists>d. B i nm c = Inr d)"
  using assms(2-)
proof (induction interfaces arbitrary: T n E)
  case Nil
  then show ?case by simp
next
  case (Cons x interfaces)
  obtain i iface where x: "x = (i, iface)" by (cases x)
  from Cons.prems(1) x obtain ds T1 n1 where
    ds: "extract_plugin_names_and_operation_mapping_from_interface cs rex iface plugins ec
           (''In interface '' @ i @ '' '' @ msg) rb = Inr ds"
    and inner: "context_operations_inner i ds (T, n) = Inr (T1, n1)"
    and rest: "context_operations_outer cs rex msg interfaces plugins ec rb (T1, n1)
           = Inr (T', n')"
    by (auto split: sum.splits)
  have all2: "list_all2 (\<lambda>(nm, c) d. B i nm c = Inr d) iface ds"
    using extract_from_interface_loop_all2[of cs rex iface plugins "map fst plugins" ec
        "''In interface '' @ i @ '' '' @ msg" rb "[]" ds] ds
    by (simp add: extract_plugin_names_and_operation_mapping_from_interface_def B_def)
  have T1: "T1 = fold (\<lambda>d. record_operation i (od_name d) (od_op_struct d)) ds T"
    using context_operations_inner_table[OF inner] .
  let ?Ei = "{(i, nm, od_op_struct d) | nm c d. (nm, c) \<in> set iface \<and> B i nm c = Inr d}"
  have names: "\<And>nm c d. B i nm c = Inr d \<Longrightarrow> od_name d = nm"
    unfolding B_def by (rule binder_name)
  have T1_ok: "table_reflects T1 (E \<union> ?Ei)"
    unfolding T1
    by (rule fold_record_operation_reflects[OF all2 names])
      (use Cons.prems x in \<open>auto\<close>)
  have nodot1: "\<forall>(i', nm', s') \<in> E \<union> ?Ei. CHR ''.'' \<notin> set nm'"
    using Cons.prems(4,6) x by auto
  have fresh1: "\<forall>j \<in> fst ` set interfaces. \<forall>nm s. (j, nm, s) \<notin> E \<union> ?Ei"
    using Cons.prems(2,7) x by force
  have IH: "table_reflects T'
           ((E \<union> ?Ei) \<union> {(i, nm, od_op_struct d) | i iface nm c d.
                   (i, iface) \<in> set interfaces \<and> (nm, c) \<in> set iface \<and> B i nm c = Inr d})
         \<and> (\<forall>(i, iface) \<in> set interfaces. \<forall>(nm, c) \<in> set iface. \<exists>d. B i nm c = Inr d)"
    using Cons.IH[OF rest _ _ _ T1_ok nodot1 fresh1] Cons.prems(2,3,4) by simp
  have sets: "(E \<union> ?Ei) \<union> {(i, nm, od_op_struct d) | i iface nm c d.
                   (i, iface) \<in> set interfaces \<and> (nm, c) \<in> set iface \<and> B i nm c = Inr d}
      = E \<union> {(i, nm, od_op_struct d) | i iface nm c d.
                   (i, iface) \<in> set (x # interfaces) \<and> (nm, c) \<in> set iface \<and> B i nm c = Inr d}"
    using x by (auto; blast)
  have here: "\<forall>(nm, c) \<in> set iface. \<exists>d. B i nm c = Inr d"
  proof (intro ballI, clarify)
    fix nm c assume "(nm, c) \<in> set iface"
    then obtain k where k: "k < length iface" "iface ! k = (nm, c)"
      by (auto simp: in_set_conv_nth)
    then have "B i nm c = Inr (ds ! k)"
      using all2 by (auto simp: list_all2_conv_all_nth split: prod.splits)
    then show "\<exists>d. B i nm c = Inr d" by blast
  qed
  show ?case using IH sets here x by simp
qed

lemma map_of_drop_none:
  "distinct (map fst T) \<Longrightarrow>
   map_of (concat (map (\<lambda>(k, v). case v of None \<Rightarrow> [] | Some s \<Rightarrow> [(k, s)]) T)) k
     = (case map_of T k of Some (Some s) \<Rightarrow> Some s | _ \<Rightarrow> None)"
proof (induction T)
  case Nil
  then show ?case by simp
next
  case (Cons x T)
  obtain k' v where x: "x = (k', v)" by (cases x)
  show ?case
  proof (cases "k' = k")
    case True
    then have "map_of T k = None" using Cons.prems x by (simp add: map_of_eq_None_iff)
    then show ?thesis using Cons x True by (cases v) auto
  next
    case False
    then show ?thesis using Cons x by (cases v) auto
  qed
qed

text \<open>
  Where no operation name contains a dot, a short name and a long name are never the
  same key, and the table is what the comment in the loop describes.  Let the interfaces
  be processed into an operations map without error, interface names and the operation
  names of each interface being distinct (they are dictionary keys), and let no
  operation name contain a dot.  Then every operation of every interface is bound, its
  long name \<open>interface.op\<close> maps to its operation structure, and its short name maps to
  that structure when no other interface has an operation of the same name and is absent
  from the map otherwise.
\<close>

lemma context_operations_dot_free_names:
  assumes ok: "process_context_operations consts resource_exists partial_error_message
                 interfaces plugins node error_code resource_base = Inr (operations, node')"
    and keys: "distinct (map fst interfaces)"
              "\<forall>(i, iface) \<in> set interfaces. distinct (map fst iface)"
    and nodot: "\<forall>(i, iface) \<in> set interfaces. \<forall>(nm, c) \<in> set iface. CHR ''.'' \<notin> set nm"
    and i: "(interface_name, interface) \<in> set interfaces"
    and nm: "(operation_name, operation_content) \<in> set interface"
  shows "\<exists>d. extract_plugin_name_and_operation_mapping_from_operation consts resource_exists
               plugins (map fst plugins) operation_name operation_content error_code
               (''In interface '' @ interface_name @ '' '' @ partial_error_message)
               resource_base False = Inr d
           \<and> map_of operations (interface_name @ ''.'' @ operation_name)
               = Some (od_op_struct d)
           \<and> map_of operations operation_name
               = (if \<exists>other ops. (other, ops) \<in> set interfaces \<and> other \<noteq> interface_name
                       \<and> operation_name \<in> fst ` set ops
                  then None else Some (od_op_struct d))"
proof -
  define B where "B = (\<lambda>i nm c. extract_plugin_name_and_operation_mapping_from_operation consts
      resource_exists plugins (map fst plugins) nm c error_code
      (''In interface '' @ i @ '' '' @ partial_error_message) resource_base False)"
  define E where "E = {(i, nm, od_op_struct d) | i iface nm c d.
      (i, iface) \<in> set interfaces \<and> (nm, c) \<in> set iface \<and> B i nm c = Inr d}"
  from ok obtain T where
    outer: "context_operations_outer consts resource_exists partial_error_message interfaces
              plugins error_code resource_base ([], node) = Inr (T, node')"
    and ops: "operations
        = concat (map (\<lambda>(k, v). case v of None \<Rightarrow> [] | Some s \<Rightarrow> [(k, s)]) T)"
    by (auto simp: process_context_operations_def split: sum.splits)
  have empty: "table_reflects [] {}" by (simp add: table_reflects_def)
  have refl: "table_reflects T E" and bound: "\<forall>(i, iface) \<in> set interfaces.
      \<forall>(nm, c) \<in> set iface. \<exists>d. B i nm c = Inr d"
    using context_operations_outer_reflects[OF outer keys nodot empty] 
    unfolding B_def E_def by simp_all
  have lookup: "map_of operations k = (case map_of T k of Some (Some s) \<Rightarrow> Some s | _ \<Rightarrow> None)"
    for k
    unfolding ops using refl by (intro map_of_drop_none) (simp add: table_reflects_def)
  obtain d where d: "B interface_name operation_name operation_content = Inr d"
    using bound i nm by blast
  then have inE: "(interface_name, operation_name, od_op_struct d) \<in> E"
    using i nm unfolding E_def by blast
  have long: "map_of operations (interface_name @ ''.'' @ operation_name)
      = Some (od_op_struct d)"
    using refl inE unfolding table_reflects_def lookup by (metis (no_types, lifting) option.simps(5))
  have short: "map_of operations operation_name
      = (if \<exists>other ops. (other, ops) \<in> set interfaces \<and> other \<noteq> interface_name
              \<and> operation_name \<in> fst ` set ops
         then None else Some (od_op_struct d))"
  proof (cases "\<exists>other ops. (other, ops) \<in> set interfaces \<and> other \<noteq> interface_name
              \<and> operation_name \<in> fst ` set ops")
    case True
    then obtain other ops c' where o: "(other, ops) \<in> set interfaces" "other \<noteq> interface_name"
      "(operation_name, c') \<in> set ops" by auto
    then obtain d' where "B other operation_name c' = Inr d'" using bound by blast
    then have "(other, operation_name, od_op_struct d') \<in> E" using o unfolding E_def by blast
    then have "map_of T operation_name = Some None"
      using refl inE o(2) unfolding table_reflects_def by blast
    then show ?thesis using True by (simp add: lookup)
  next
    case False
    have "\<forall>i' s'. (i', operation_name, s') \<in> E \<longrightarrow> i' = interface_name"
      using False unfolding E_def by force
    then have "map_of T operation_name = Some (Some (od_op_struct d))"
      using refl inE unfolding table_reflects_def by blast
    then show ?thesis using False by (simp add: lookup)
  qed
  show ?thesis using d long short unfolding B_def by blast
qed

text \<open>
  Two interfaces \<open>a\<close> and \<open>c\<close> that both have an operation \<open>b\<close>: the short name \<open>b\<close> is
  removed, \<open>a.b\<close> and \<open>c.b\<close> remain, and \<open>s\<close>, which only \<open>a\<close> has, is kept.
\<close>

lemma context_operations_dot_free_names_example:
  "process_context_operations example_constants no_resources ''in node n''
     [(''a'', [(''b'', OpStr ''p.x''), (''s'', OpStr ''p.s'')]), (''c'', [(''b'', OpStr ''p.y'')])]
     [(''p'', example_plugin ''p'')] (example_node ''n'' ''t'' None) 10 None
   = Inr ([(''a.b'', \<lparr>os_plugin = ''p'', os_operation = ''x'', os_properties = None\<rparr>),
           (''s'', \<lparr>os_plugin = ''p'', os_operation = ''s'', os_properties = None\<rparr>),
           (''a.s'', \<lparr>os_plugin = ''p'', os_operation = ''s'', os_properties = None\<rparr>),
           (''c.b'', \<lparr>os_plugin = ''p'', os_operation = ''y'', os_properties = None\<rparr>)],
          (example_node ''n'' ''t'' None)\<lparr>n_plugins := Some [(''p'', example_plugin ''p'')]\<rparr>)
   \<and> (\<exists>d. extract_plugin_name_and_operation_mapping_from_operation example_constants
           no_resources [(''p'', example_plugin ''p'')] [''p''] ''b'' (OpStr ''p.x'') 10
           ''In interface a in node n'' None False = Inr d
         \<and> map_of [(''a.b'', \<lparr>os_plugin = ''p'', os_operation = ''x'', os_properties = None\<rparr>),
                    (''s'', \<lparr>os_plugin = ''p'', os_operation = ''s'', os_properties = None\<rparr>),
                    (''a.s'', \<lparr>os_plugin = ''p'', os_operation = ''s'', os_properties = None\<rparr>),
                    (''c.b'', \<lparr>os_plugin = ''p'', os_operation = ''y'', os_properties = None\<rparr>)]
               ''a.b'' = Some (od_op_struct d)
         \<and> map_of [(''a.b'', \<lparr>os_plugin = ''p'', os_operation = ''x'', os_properties = None\<rparr>),
                    (''s'', \<lparr>os_plugin = ''p'', os_operation = ''s'', os_properties = None\<rparr>),
                    (''a.s'', \<lparr>os_plugin = ''p'', os_operation = ''s'', os_properties = None\<rparr>),
                    (''c.b'', \<lparr>os_plugin = ''p'', os_operation = ''y'', os_properties = None\<rparr>)]
               ''b'' = None)"
proof -
  have ok: "process_context_operations example_constants no_resources ''in node n''
     [(''a'', [(''b'', OpStr ''p.x''), (''s'', OpStr ''p.s'')]), (''c'', [(''b'', OpStr ''p.y'')])]
     [(''p'', example_plugin ''p'')] (example_node ''n'' ''t'' None) 10 None
   = Inr ([(''a.b'', \<lparr>os_plugin = ''p'', os_operation = ''x'', os_properties = None\<rparr>),
           (''s'', \<lparr>os_plugin = ''p'', os_operation = ''s'', os_properties = None\<rparr>),
           (''a.s'', \<lparr>os_plugin = ''p'', os_operation = ''s'', os_properties = None\<rparr>),
           (''c.b'', \<lparr>os_plugin = ''p'', os_operation = ''y'', os_properties = None\<rparr>)],
          (example_node ''n'' ''t'' None)\<lparr>n_plugins := Some [(''p'', example_plugin ''p'')]\<rparr>)"
    by (simp add: process_context_operations_def
        extract_plugin_names_and_operation_mapping_from_interface_def
        extract_plugin_name_and_operation_mapping_from_operation_def record_operation_def
        operation_struct_def startswith_def example_node_def example_plugin_def Let_def)
  show ?thesis
    using ok context_operations_dot_free_names[OF ok, of "''a''"
        "[(''b'', OpStr ''p.x''), (''s'', OpStr ''p.s'')]" "''b''" "OpStr ''p.x''"]
    by auto
qed

text \<open>
  Claim C6.  When the same short operation name appears in two interfaces, the short
  entry is removed and the long entries \<open>interface.op\<close> remain; a short name of a single
  interface is kept alongside its long form.  The comment in the loop says the same: only
  the implicit name is to be removed.  The code breaks this where the short name of one
  operation is the long name of another, because short and long names are keys of one
  table and the test \<open>operation_name in operations\<close> does not tell them apart.
  Interface \<open>a\<close> has the operation \<open>b\<close> and interface \<open>c\<close> the operation \<open>a.b\<close>; each short
  name belongs to one interface only.  With \<open>a\<close> processed first, processing \<open>c\<close> finds
  the key \<open>a.b\<close> in the table and sets it to \<open>None\<close>: the explicit long name \<open>a.b\<close> of the
  operation of \<open>a\<close> and the short name \<open>a.b\<close> of the operation of \<open>c\<close> are both missing
  from the result.  With \<open>c\<close> processed first, the long name of the operation of \<open>a\<close>
  overwrites the short name of the operation of \<open>c\<close>, so that the short name \<open>a.b\<close> is
  bound to the operation of the other interface.
\<close>

theorem context_operations_long_name_lost:
  "process_context_operations example_constants no_resources ''in node n''
     [(''a'', [(''b'', OpStr ''p.x'')]), (''c'', [(''a.b'', OpStr ''p.y'')])]
     [(''p'', example_plugin ''p'')] (example_node ''n'' ''t'' None) 10 None
   = Inr ([(''b'', \<lparr>os_plugin = ''p'', os_operation = ''x'', os_properties = None\<rparr>),
           (''c.a.b'', \<lparr>os_plugin = ''p'', os_operation = ''y'', os_properties = None\<rparr>)],
          (example_node ''n'' ''t'' None)\<lparr>n_plugins := Some [(''p'', example_plugin ''p'')]\<rparr>)
   \<and> map_of [(''b'', \<lparr>os_plugin = ''p'', os_operation = ''x'', os_properties = None\<rparr>),
              (''c.a.b'', \<lparr>os_plugin = ''p'', os_operation = ''y'', os_properties = None\<rparr>)]
         ''a.b'' = None
   \<and> process_context_operations example_constants no_resources ''in node n''
     [(''c'', [(''a.b'', OpStr ''p.y'')]), (''a'', [(''b'', OpStr ''p.x'')])]
     [(''p'', example_plugin ''p'')] (example_node ''n'' ''t'' None) 10 None
   = Inr ([(''a.b'', \<lparr>os_plugin = ''p'', os_operation = ''x'', os_properties = None\<rparr>),
           (''c.a.b'', \<lparr>os_plugin = ''p'', os_operation = ''y'', os_properties = None\<rparr>),
           (''b'', \<lparr>os_plugin = ''p'', os_operation = ''x'', os_properties = None\<rparr>)],
          (example_node ''n'' ''t'' None)\<lparr>n_plugins := Some [(''p'', example_plugin ''p'')]\<rparr>)"
  by (simp add: process_context_operations_def
      extract_plugin_names_and_operation_mapping_from_interface_def
      extract_plugin_name_and_operation_mapping_from_operation_def record_operation_def
      operation_struct_def startswith_def example_node_def example_plugin_def Let_def)

section \<open>Consumption of implementations\<close>

lemma implementation_candidates_subset:
  "implementation_candidates candidate_func implementations = Inr candidates
   \<Longrightarrow> set candidates \<subseteq> set implementations"
proof (induction implementations arbitrary: candidates)
  case Nil
  then show ?case by simp
next
  case (Cons x implementations)
  obtain impl_name impl_content where x: "x = (impl_name, impl_content)" by (cases x)
  from Cons.prems x obtain b where b: "candidate_func impl_content = Inr b"
    by (auto split: sum.splits)
  from Cons.prems x b obtain cs where
    cs: "implementation_candidates candidate_func implementations = Inr cs"
    by (auto split: sum.splits)
  have "candidates = (if b then (impl_name, impl_content) # cs else cs)"
    using Cons.prems x b cs by simp
  then show ?case using Cons.IH[of cs] cs x by (auto split: if_splits)
qed

text \<open>
  Claim C9.  Whatever \<open>_get_implementation\<close> returns or raises, it leaves the dictionary of
  implementations as it was, except when it returns an implementation: then exactly the
  entry of that implementation, whose type derives from the looked-up type, has been
  deleted.  In particular the dictionary is unchanged when the lookup raises for ambiguity
  or for a derivation mismatch, and also when the recursion of \<open>_is_derived_from\<close> raises.
\<close>

theorem get_implementation_mutates_only_on_success:
  assumes "get_implementation frames type_name implementations types err_code_ambig
             err_code_derive candidate_func = (outcome, implementations')"
  shows "case outcome of
           Inl e \<Rightarrow> implementations' = implementations
         | Inr None \<Rightarrow> implementations' = implementations
         | Inr (Some impl) \<Rightarrow>
             \<exists>impl_name. (impl_name, impl) \<in> set implementations
               \<and> is_derived_from frames (impl_type impl) types type_name = Inr True
               \<and> implementations' = AList.delete impl_name implementations"
proof (cases "implementation_candidates candidate_func implementations")
  case (Inl e)
  then show ?thesis using assms by (auto simp: get_implementation_def)
next
  case (Inr candidates)
  note sub = implementation_candidates_subset[OF Inr]
  show ?thesis
  proof (cases candidates)
    case Nil
    then show ?thesis using assms Inr by (auto simp: get_implementation_def)
  next
    case (Cons c cs)
    obtain impl_name impl where c: "c = (impl_name, impl)" by (cases c)
    have mem: "(impl_name, impl) \<in> set implementations" using sub Cons c by auto
    show ?thesis
    proof (cases cs)
      case Nil
      show ?thesis
      proof (cases "is_derived_from frames (impl_type impl) types type_name")
        case (Inl e)
        then show ?thesis
          using assms \<open>implementation_candidates candidate_func implementations
                        = Inr candidates\<close> Cons c Nil
          by (auto simp: get_implementation_def)
      next
        case (Inr derived)
        then show ?thesis
          using assms \<open>implementation_candidates candidate_func implementations
                        = Inr candidates\<close> Cons c Nil mem
          by (cases derived) (auto simp: get_implementation_def)
      qed
    next
      case (Cons c' cs')
      then show ?thesis
        using assms Inr \<open>candidates = c # cs\<close>
        by (auto simp: get_implementation_def)
    qed
  qed
qed

text \<open>
  A single type implementation for node \<open>n\<close> is applied and consumed; two implementations
  for the same node raise the ambiguity error and both stay in the dictionary.
\<close>

theorem get_implementation_mutates_only_on_success_witness:
  "get_implementation 2 ''t''
     [(''impl1'', example_type_implementation ''t2'' ''n'')]
     [(''t'', example_type None), (''t2'', example_type (Some ''t''))] 103 102
     (\<lambda>impl_content. Inr (impl_node_ref impl_content = Some ''n''))
   = (Inr (Some (example_type_implementation ''t2'' ''n'')), [])
   \<and> get_implementation 2 ''t''
     [(''impl1'', example_type_implementation ''t2'' ''n''),
      (''impl2'', example_type_implementation ''t'' ''n'')]
     [(''t'', example_type None), (''t2'', example_type (Some ''t''))] 103 102
     (\<lambda>impl_content. Inr (impl_node_ref impl_content = Some ''n''))
   = (Inl (DSLParsingLogicException 103 [''impl1'', ''impl2'']),
       [(''impl1'', example_type_implementation ''t2'' ''n''),
        (''impl2'', example_type_implementation ''t'' ''n'')])"
proof -
  have ok: "get_implementation 2 ''t''
     [(''impl1'', example_type_implementation ''t2'' ''n'')]
     [(''t'', example_type None), (''t2'', example_type (Some ''t''))] 103 102
     (\<lambda>impl_content. Inr (impl_node_ref impl_content = Some ''n''))
   = (Inr (Some (example_type_implementation ''t2'' ''n'')), [])"
    by (simp add: get_implementation_def example_type_def example_type_implementation_def
        numeral_2_eq_2)
  show ?thesis
    using get_implementation_mutates_only_on_success[OF ok]
    by (simp add: get_implementation_def example_type_def example_type_implementation_def
        numeral_2_eq_2)
qed

section \<open>Validation of relationship instances\<close>

lemma process_node_relationship_shape:
  assumes "process_node_relationship frames merges relationship node_name node_names_set
             top_level_relationships relationship_impls = Inr (r', impls')"
  shows "r_target r' = None \<and> r_state r' = Some ''reachable''
         \<and> (\<exists>target. r_target relationship = Some target \<and> r_target_id r' = Some target
               \<and> target \<in> node_names_set \<and> target \<noteq> node_name)
         \<and> r_type r' \<in> fst ` set top_level_relationships"
proof -
  from assms obtain target where target: "r_target relationship = Some target"
    by (cases "r_target relationship") (auto simp: process_node_relationship_def)
  obtain outcome impls1 where
    g: "get_relationship_implementation_if_exists (frames - 1) node_name target
          relationship_impls (r_type relationship) top_level_relationships
        = (outcome, impls1)"
    by (cases "get_relationship_implementation_if_exists (frames - 1) node_name target
          relationship_impls (r_type relationship) top_level_relationships")
  from assms target g obtain relationship_type impl_properties where
    o: "outcome = Inr (relationship_type, impl_properties)"
    by (cases outcome) (auto simp: process_node_relationship_def)
  have checks: "target \<in> node_names_set" "target \<noteq> node_name"
    using assms target g o
    by (auto simp: process_node_relationship_def Let_def split: if_splits)
  then obtain ct where ct: "map_of top_level_relationships relationship_type = Some ct"
    using assms target g o
    by (cases "map_of top_level_relationships relationship_type")
      (auto simp: process_node_relationship_def Let_def)
  then have key: "relationship_type \<in> fst ` set top_level_relationships"
    using map_of_eq_None_iff[of top_level_relationships relationship_type] by auto
  from assms target g o checks ct obtain si ti where
    m: "merge_relationship_type_and_instance_interfaces merges ct
          (relationship\<lparr>r_type := relationship_type\<rparr>) = Inr (si, ti)"
    by (cases "merge_relationship_type_and_instance_interfaces merges ct
          (relationship\<lparr>r_type := relationship_type\<rparr>)")
      (auto simp: process_node_relationship_def Let_def)
  from assms target g o checks ct m obtain props where
    "r' = relationship\<lparr>r_type := relationship_type, r_source_interfaces := Some si,
            r_target_interfaces := Some ti, r_properties := Some props,
            r_target_id := Some target, r_target := None, r_state := Some ''reachable''\<rparr>"
    by (auto simp: process_node_relationship_def Let_def split: sum.splits)
  then show ?thesis using target checks key by simp
qed

lemma process_node_relationships_loop_shape:
  assumes "process_node_relationships_loop frames merges rels node_name node_names_set
             top_level_relationships impls acc = Inr (out, impls')"
  shows "\<exists>new. out = acc @ new \<and>
           list_all2 (\<lambda>r r'. r_target r' = None \<and> r_state r' = Some ''reachable''
               \<and> (\<exists>target. r_target r = Some target \<and> r_target_id r' = Some target
                     \<and> target \<in> node_names_set \<and> target \<noteq> node_name)
               \<and> r_type r' \<in> fst ` set top_level_relationships) rels new"
  using assms
proof (induction rels arbitrary: impls acc)
  case Nil
  then show ?case by simp
next
  case (Cons r rels)
  from Cons.prems obtain r' impls1 where
    res: "process_node_relationship frames merges r node_name node_names_set
            top_level_relationships impls = Inr (r', impls1)"
    by (auto split: sum.splits)
  then have rest: "process_node_relationships_loop frames merges rels node_name
             node_names_set top_level_relationships impls1 (acc @ [r']) = Inr (out, impls')"
    using Cons.prems by simp
  from Cons.IH[OF rest] obtain new where new: "out = (acc @ [r']) @ new"
    "list_all2 (\<lambda>r r'. r_target r' = None \<and> r_state r' = Some ''reachable''
               \<and> (\<exists>target. r_target r = Some target \<and> r_target_id r' = Some target
                     \<and> target \<in> node_names_set \<and> target \<noteq> node_name)
               \<and> r_type r' \<in> fst ` set top_level_relationships) rels new"
    by blast
  show ?case
    using new process_node_relationship_shape[OF res]
    by (intro exI[of _ "r' # new"]) simp
qed

lemma process_node_relationships_loop_append:
  "process_node_relationships_loop frames merges (pre @ rest) node_name node_names_set
     top_level_relationships impls acc =
   (case process_node_relationships_loop frames merges pre node_name node_names_set
           top_level_relationships impls acc of
      Inl e \<Rightarrow> Inl e
    | Inr (done', impls1) \<Rightarrow>
        process_node_relationships_loop frames merges rest node_name node_names_set
          top_level_relationships impls1 done')"
proof (induction pre arbitrary: impls acc)
  case Nil
  then show ?case by simp
next
  case (Cons r pre)
  show ?case
  proof (cases "process_node_relationship frames merges r node_name node_names_set
                  top_level_relationships impls")
    case (Inl e)
    then show ?thesis by simp
  next
    case (Inr res)
    then show ?thesis using Cons.IH by (cases res) auto
  qed
qed

text \<open>
  Claim C4, as amended.  Let a node template have relationships, and take any of its
  relationship instances such that the instances before it are processed without error.
  The lookup of a relationship implementation for the instance runs first: when it
  raises, node processing raises that exception.  When it returns a relationship type,
  node processing raises the logic error 25 when the target is not a declared node name,
  23 when the target is a declared name and equals the name of the node itself, and 26
  when the target passes both checks and the relationship type, as the lookup returned
  it, is not a declared relationship type.  When node processing succeeds, the processed
  node has one relationship per instance, in order, each without the key \<open>target\<close>, with
  \<open>target_id\<close> equal to the instance's target, which is a declared node name other than
  the node's own, with state \<open>reachable\<close> and with a declared relationship type.
\<close>

theorem process_node_relationships_checks:
  assumes rels: "nt_relationships node = Some node_relationships"
  shows "(\<forall>pre relationship post complete impls1 target outcome impls2.
            node_relationships = pre @ relationship # post
            \<and> process_node_relationships_loop frames merges pre node_name node_names_set
                top_level_relationships relationship_impls [] = Inr (complete, impls1)
            \<and> r_target relationship = Some target
            \<and> get_relationship_implementation_if_exists (frames - 1) node_name target impls1
                (r_type relationship) top_level_relationships = (outcome, impls2)
            \<longrightarrow>
              (\<forall>e. outcome = Inl e \<longrightarrow>
                 process_node_relationships frames merges node node_name node_names_set
                   processed_node top_level_relationships relationship_impls = Inl e)
            \<and> (\<forall>relationship_type impl_properties.
                 outcome = Inr (relationship_type, impl_properties) \<longrightarrow>
                 (target \<notin> node_names_set \<longrightarrow>
                    process_node_relationships frames merges node node_name node_names_set
                      processed_node top_level_relationships relationship_impls
                    = Inl (DSLParsingLogicException 25
                             [node_name, relationship_type, target]))
               \<and> (target \<in> node_names_set \<and> target = node_name \<longrightarrow>
                    process_node_relationships frames merges node node_name node_names_set
                      processed_node top_level_relationships relationship_impls
                    = Inl (DSLParsingLogicException 23 [node_name, relationship_type]))
               \<and> (target \<in> node_names_set \<and> target \<noteq> node_name
                    \<and> relationship_type \<notin> fst ` set top_level_relationships \<longrightarrow>
                    process_node_relationships frames merges node node_name node_names_set
                      processed_node top_level_relationships relationship_impls
                    = Inl (DSLParsingLogicException 26 [node_name, relationship_type]))))
       \<and> (\<forall>processed_node' relationship_impls'.
            process_node_relationships frames merges node node_name node_names_set
              processed_node top_level_relationships relationship_impls
              = Inr (processed_node', relationship_impls')
            \<longrightarrow> (\<exists>relationships.
                   n_relationships processed_node' = Some relationships
                   \<and> list_all2
                       (\<lambda>r r'. r_target r' = None \<and> r_state r' = Some ''reachable''
                          \<and> (\<exists>target. r_target r = Some target
                                \<and> r_target_id r' = Some target
                                \<and> target \<in> node_names_set \<and> target \<noteq> node_name)
                          \<and> r_type r' \<in> fst ` set top_level_relationships)
                       node_relationships relationships))"
proof (intro conjI allI impI)
  fix processed_node' relationship_impls'
  assume ok: "process_node_relationships frames merges node node_name node_names_set
              processed_node top_level_relationships relationship_impls
              = Inr (processed_node', relationship_impls')"
  then obtain out where
    res: "process_node_relationships_loop frames merges node_relationships
      node_name node_names_set top_level_relationships relationship_impls []
      = Inr (out, relationship_impls')"
    and p: "processed_node' = processed_node\<lparr>n_relationships := Some out\<rparr>"
    using rels by (auto simp: process_node_relationships_def split: sum.splits)
  from process_node_relationships_loop_shape[OF res] p
  show "\<exists>relationships.
          n_relationships processed_node' = Some relationships
          \<and> list_all2
              (\<lambda>r r'. r_target r' = None \<and> r_state r' = Some ''reachable''
                 \<and> (\<exists>target. r_target r = Some target
                       \<and> r_target_id r' = Some target
                       \<and> target \<in> node_names_set \<and> target \<noteq> node_name)
                 \<and> r_type r' \<in> fst ` set top_level_relationships)
              node_relationships relationships"
    by auto
next
  fix pre relationship post complete impls1 target outcome impls2 e
  assume h: "node_relationships = pre @ relationship # post
            \<and> process_node_relationships_loop frames merges pre node_name node_names_set
                top_level_relationships relationship_impls [] = Inr (complete, impls1)
            \<and> r_target relationship = Some target
            \<and> get_relationship_implementation_if_exists (frames - 1) node_name target impls1
                (r_type relationship) top_level_relationships = (outcome, impls2)"
    and raised: "outcome = Inl e"
  have loop: "process_node_relationships_loop frames merges node_relationships node_name
      node_names_set top_level_relationships relationship_impls []
      = (case process_node_relationship frames merges relationship node_name node_names_set
              top_level_relationships impls1 of
           Inl e \<Rightarrow> Inl e
         | Inr (complete_relationship, relationship_impls') \<Rightarrow>
             process_node_relationships_loop frames merges post node_name node_names_set
               top_level_relationships relationship_impls'
               (complete @ [complete_relationship]))"
    using h by (simp add: process_node_relationships_loop_append)
  have "process_node_relationship frames merges relationship node_name node_names_set
        top_level_relationships impls1 = Inl e"
    using h raised by (simp add: process_node_relationship_def)
  then show "process_node_relationships frames merges node node_name node_names_set
        processed_node top_level_relationships relationship_impls = Inl e"
    using rels loop by (simp add: process_node_relationships_def)
next
  fix pre relationship post complete impls1 target outcome impls2 relationship_type
    impl_properties
  assume h: "node_relationships = pre @ relationship # post
            \<and> process_node_relationships_loop frames merges pre node_name node_names_set
                top_level_relationships relationship_impls [] = Inr (complete, impls1)
            \<and> r_target relationship = Some target
            \<and> get_relationship_implementation_if_exists (frames - 1) node_name target impls1
                (r_type relationship) top_level_relationships = (outcome, impls2)"
    and returned: "outcome = Inr (relationship_type, impl_properties)"
  have loop: "process_node_relationships_loop frames merges node_relationships node_name
      node_names_set top_level_relationships relationship_impls []
      = (case process_node_relationship frames merges relationship node_name node_names_set
              top_level_relationships impls1 of
           Inl e \<Rightarrow> Inl e
         | Inr (complete_relationship, relationship_impls') \<Rightarrow>
             process_node_relationships_loop frames merges post node_name node_names_set
               top_level_relationships relationship_impls'
               (complete @ [complete_relationship]))"
    using h by (simp add: process_node_relationships_loop_append)
  {
    assume "target \<notin> node_names_set"
    then have "process_node_relationship frames merges relationship node_name node_names_set
        top_level_relationships impls1
        = Inl (DSLParsingLogicException 25 [node_name, relationship_type, target])"
      using h returned by (simp add: process_node_relationship_def Let_def)
    then show "process_node_relationships frames merges node node_name node_names_set
        processed_node top_level_relationships relationship_impls
        = Inl (DSLParsingLogicException 25 [node_name, relationship_type, target])"
      using rels loop by (simp add: process_node_relationships_def)
  }
  {
    assume "target \<in> node_names_set \<and> target = node_name"
    then have "node_name \<in> node_names_set" "target = node_name" by auto
    then have "process_node_relationship frames merges relationship node_name node_names_set
        top_level_relationships impls1
        = Inl (DSLParsingLogicException 23 [node_name, relationship_type])"
      using h returned by (simp add: process_node_relationship_def Let_def)
    then show "process_node_relationships frames merges node node_name node_names_set
        processed_node top_level_relationships relationship_impls
        = Inl (DSLParsingLogicException 23 [node_name, relationship_type])"
      using rels loop by (simp add: process_node_relationships_def)
  }
  {
    assume a: "target \<in> node_names_set \<and> target \<noteq> node_name
        \<and> relationship_type \<notin> fst ` set top_level_relationships"
    then have "map_of top_level_relationships relationship_type = None"
      by (simp add: map_of_eq_None_iff)
    then have "process_node_relationship frames merges relationship node_name node_names_set
        top_level_relationships impls1
        = Inl (DSLParsingLogicException 26 [node_name, relationship_type])"
      using h returned a by (simp add: process_node_relationship_def Let_def)
    then show "process_node_relationships frames merges node node_name node_names_set
        processed_node top_level_relationships relationship_impls
        = Inl (DSLParsingLogicException 26 [node_name, relationship_type])"
      using rels loop by (simp add: process_node_relationships_def)
  }
qed

text \<open>
  Node \<open>web\<close> among the nodes \<open>web\<close> and \<open>db\<close>, with the relationship type \<open>r\<close> declared: a
  relationship to \<open>db\<close> is completed, and the three errors arise for an unknown target, for
  the node itself as target and for an undeclared relationship type.
\<close>

theorem process_node_relationships_checks_witness:
  "process_node_relationships 10 example_merges
     (example_template ''t'' (Some [example_relationship ''r'' ''db''])) ''web''
     {''web'', ''db''} (example_node ''web'' ''t'' None) [(''r'', example_type None)] []
   = Inr ((example_node ''web'' ''t'' None)
            \<lparr>n_relationships :=
               Some [(example_relationship ''r'' ''db'')
                       \<lparr>r_source_interfaces := Some [], r_target_interfaces := Some [],
                        r_properties := Some [], r_target_id := Some ''db'',
                        r_target := None, r_state := Some ''reachable''\<rparr>]\<rparr>,
          [])
   \<and> process_node_relationships 10 example_merges
     (example_template ''t'' (Some [example_relationship ''r'' ''nowhere''])) ''web''
     {''web'', ''db''} (example_node ''web'' ''t'' None) [(''r'', example_type None)] []
   = Inl (DSLParsingLogicException 25 [''web'', ''r'', ''nowhere''])
   \<and> process_node_relationships 10 example_merges
     (example_template ''t'' (Some [example_relationship ''r'' ''web''])) ''web''
     {''web'', ''db''} (example_node ''web'' ''t'' None) [(''r'', example_type None)] []
   = Inl (DSLParsingLogicException 23 [''web'', ''r''])
   \<and> process_node_relationships 10 example_merges
     (example_template ''t'' (Some [example_relationship ''q'' ''db''])) ''web''
     {''web'', ''db''} (example_node ''web'' ''t'' None) [(''r'', example_type None)] []
   = Inl (DSLParsingLogicException 26 [''web'', ''q''])"
proof -
  have rels: "nt_relationships (example_template ''t'' (Some [example_relationship ''r'' ''db'']))
      = Some [example_relationship ''r'' ''db'']"
    by (simp add: example_template_def)
  show ?thesis
    using process_node_relationships_checks[OF rels, of 10 example_merges "''web''"
        "{''web'', ''db''}" "[(''r'', example_type None)]" "[]" "example_node ''web'' ''t'' None"]
    by (simp add: process_node_relationships_def process_node_relationship_def
        get_relationship_implementation_if_exists_def get_implementation_def
        example_template_def example_relationship_def example_merges_def example_type_def
        example_node_def Let_def)
qed

text \<open>
  The claim as stated fails where the lookup raises.  The relationship of node \<open>web\<close> has
  the target \<open>nowhere\<close>, which is not a declared node name, and two relationship
  implementations \<open>i1\<close> and \<open>i2\<close> are declared for the edge from \<open>web\<close> to \<open>nowhere\<close>.
  The lookup finds both and raises the ambiguity error 108 before the target is checked,
  so node processing does not raise 25.
\<close>

theorem process_node_relationships_lookup_first_counterexample:
  "process_node_relationships 10 example_merges
     (example_template ''t'' (Some [example_relationship ''r'' ''nowhere''])) ''web''
     {''web'', ''db''} (example_node ''web'' ''t'' None) [(''r'', example_type None)]
     [(''i1'', example_relationship_implementation ''r'' ''web'' ''nowhere''),
      (''i2'', example_relationship_implementation ''r'' ''web'' ''nowhere'')]
   = Inl (DSLParsingLogicException 108 [''i1'', ''i2''])"
  by (simp add: process_node_relationships_def process_node_relationship_def
      get_relationship_implementation_if_exists_def get_implementation_def
      example_template_def example_relationship_def example_relationship_implementation_def
      example_type_def eval_nat_numeral)

section \<open>Base families of relationships\<close>

lemma process_node_relationships_operations_keeps:
  assumes "process_node_relationships_operations consts rex relationship ia oa k nodes plugins rb
             = Inr (relationship', nodes')"
  shows "r_type relationship' = r_type relationship \<and> r_base relationship' = r_base relationship
         \<and> length nodes' = length nodes"
  using assms
  by (auto simp: process_node_relationships_operations_def set_relationship_operations_def
      Let_def split: option.splits sum.splits if_splits)

lemma add_base_type_to_relationship_result:
  "add_base_type_to_relationship relationship cont conn deps cl = (r', cl')
   \<Longrightarrow> r_type r' = r_type relationship
     \<and> r_base r' = Some (if r_type relationship \<in> cont then ''contained''
                         else if r_type relationship \<in> conn then ''connected''
                         else if r_type relationship \<in> deps then ''depends''
                         else ''undefined'')
     \<and> cl' = cl @ filter (\<lambda>t. t \<in> cont) [r_type relationship]"
  by (auto simp: add_base_type_to_relationship_def Let_def split: if_splits)

lemma post_process_node_relationships_loop_result:
  assumes "post_process_node_relationships_loop frames consts rex rels k plugins cont conn
             deps relationships rb (nodes, fin, cl) = Inr (nodes', fin', cl')"
  shows "length nodes' = length nodes
         \<and> (\<exists>new. fin' = fin @ new \<and> map r_type new = map r_type rels
               \<and> map r_base new =
                   map (\<lambda>r. Some (if r_type r \<in> cont then ''contained''
                                   else if r_type r \<in> conn then ''connected''
                                   else if r_type r \<in> deps then ''depends''
                                   else ''undefined'')) rels)
         \<and> cl' = cl @ filter (\<lambda>t. t \<in> cont) (map r_type rels)"
  using assms
proof (induction rels arbitrary: nodes fin cl)
  case Nil
  then show ?case by simp
next
  case (Cons r rels)
  from Cons.prems obtain target_id where t: "r_target_id r = Some target_id"
    by (cases "r_target_id r") auto
  from Cons.prems t obtain target_node where tn: "node_index nodes target_id = Some target_node"
    by (cases "node_index nodes target_id") auto
  from Cons.prems t tn obtain r1 nodes1 where
    s1: "process_node_relationships_operations consts rex r ''source_interfaces''
           ''source_operations'' k nodes plugins rb = Inr (r1, nodes1)"
    by (cases "process_node_relationships_operations consts rex r ''source_interfaces''
           ''source_operations'' k nodes plugins rb") auto
  from Cons.prems t tn s1 obtain r2 nodes2 where
    s2: "process_node_relationships_operations consts rex r1 ''target_interfaces''
           ''target_operations'' target_node nodes1 plugins rb = Inr (r2, nodes2)"
    by (cases "process_node_relationships_operations consts rex r1 ''target_interfaces''
           ''target_operations'' target_node nodes1 plugins rb") auto
  obtain r3 cl3 where
    s3: "add_base_type_to_relationship r2 cont conn deps cl = (r3, cl3)"
    by (cases "add_base_type_to_relationship r2 cont conn deps cl")
  from Cons.prems t tn s1 s2 s3 obtain th where
    th: "create_type_hierarchy frames (r_type r3) relationships = Inr th"
    by (cases "create_type_hierarchy frames (r_type r3) relationships") auto
  have rest: "post_process_node_relationships_loop frames consts rex rels k plugins cont
      conn deps relationships rb
      (nodes2, fin @ [r3\<lparr>r_type_hierarchy := Some th\<rparr>], cl3) = Inr (nodes', fin', cl')"
    using Cons.prems t tn s1 s2 s3 th by simp
  note k1 = process_node_relationships_operations_keeps[OF s1]
  note k2 = process_node_relationships_operations_keeps[OF s2]
  note k3 = add_base_type_to_relationship_result[OF s3]
  from Cons.IH[OF rest] obtain new where
    new: "length nodes' = length nodes2"
      "fin' = (fin @ [r3\<lparr>r_type_hierarchy := Some th\<rparr>]) @ new"
      "map r_type new = map r_type rels"
      "map r_base new =
         map (\<lambda>r. Some (if r_type r \<in> cont then ''contained''
                         else if r_type r \<in> conn then ''connected''
                         else if r_type r \<in> deps then ''depends''
                         else ''undefined'')) rels"
      "cl' = cl3 @ filter (\<lambda>t. t \<in> cont) (map r_type rels)"
    by blast
  have ty: "r_type r3 = r_type r" using k1 k2 k3 by simp
  show ?case
  proof (intro conjI)
    show "length nodes' = length nodes" using new(1) k1 k2 by simp
    show "\<exists>new. fin' = fin @ new \<and> map r_type new = map r_type (r # rels)
               \<and> map r_base new =
                   map (\<lambda>r. Some (if r_type r \<in> cont then ''contained''
                                   else if r_type r \<in> conn then ''connected''
                                   else if r_type r \<in> deps then ''depends''
                                   else ''undefined'')) (r # rels)"
      using new(2,3,4) ty k1 k2 k3
      by (intro exI[of _ "r3\<lparr>r_type_hierarchy := Some th\<rparr> # new"]) simp
    show "cl' = cl @ filter (\<lambda>t. t \<in> cont) (map r_type (r # rels))"
      using new(5) k3 ty k1 k2 by simp
  qed
qed

lemma count_contained_bases:
  assumes "map r_type fin = map r_type rels"
    and "map r_base fin =
           map (\<lambda>r. Some (if r_type r \<in> cont then ''contained''
                           else if r_type r \<in> conn then ''connected''
                           else if r_type r \<in> deps then ''depends''
                           else ''undefined'')) rels"
  shows "length (filter (\<lambda>r. r_base r = Some ''contained'') fin)
         = length (filter (\<lambda>t. t \<in> cont) (map r_type rels))"
  using assms
proof (induction fin arbitrary: rels)
  case Nil
  then show ?case by simp
next
  case (Cons f fin)
  then obtain r rels' where rels: "rels = r # rels'" by (cases rels) auto
  then show ?case using Cons by (auto split: if_splits)
qed

text \<open>
  Claim C3, as amended.  Let the node at a position of the list have relationships.  The
  loop of \<open>_post_process_node_relationships\<close> over them binds the operations of each
  relationship and builds its type hierarchy, and runs before the containment check: when
  it raises, post-processing of the node raises that exception.  When it raises nothing,
  every relationship has been given the base \<open>contained\<close> if its type is in the
  contained-in family, else \<open>connected\<close> if in the connected-to family, else \<open>depends\<close> if
  in the depends-on family, else \<open>undefined\<close>; the list \<open>contained_in_relationships\<close> holds
  the types of the relationships of the contained-in family, in order; and if more than
  one relationship is of that family, post-processing of the node fails with the logic
  error 112 that carries exactly these types.  Whenever post-processing of the node
  succeeds, its relationships keep their types, carry these bases, and at most one of
  them has the base \<open>contained\<close>.
\<close>

theorem relationship_base_and_single_containment:
  assumes rels: "n_relationships (processed_nodes ! processed_node) = Some node_relationships"
    and bound: "processed_node < length processed_nodes"
  shows "(\<forall>e.
            post_process_node_relationships_loop frames consts resource_exists
              node_relationships processed_node plugins contained_in_rel_types
              connected_to_rel_types depends_on_rel_types relationships resource_base
              (processed_nodes, [], []) = Inl e
            \<longrightarrow> post_process_node_relationships frames consts resource_exists processed_node
                  processed_nodes plugins contained_in_rel_types connected_to_rel_types
                  depends_on_rel_types relationships resource_base = Inl e)
       \<and> (\<forall>processed_nodes' finished contained_in_relationships.
            post_process_node_relationships_loop frames consts resource_exists
              node_relationships processed_node plugins contained_in_rel_types
              connected_to_rel_types depends_on_rel_types relationships resource_base
              (processed_nodes, [], [])
            = Inr (processed_nodes', finished, contained_in_relationships)
            \<longrightarrow>
              map r_base finished =
                map (\<lambda>r. Some (if r_type r \<in> contained_in_rel_types then ''contained''
                                else if r_type r \<in> connected_to_rel_types then ''connected''
                                else if r_type r \<in> depends_on_rel_types then ''depends''
                                else ''undefined'')) node_relationships
            \<and> contained_in_relationships =
                filter (\<lambda>t. t \<in> contained_in_rel_types) (map r_type node_relationships)
            \<and> (1 < length (filter (\<lambda>r. r_type r \<in> contained_in_rel_types) node_relationships)
               \<longrightarrow> post_process_node_relationships frames consts resource_exists
                     processed_node processed_nodes plugins contained_in_rel_types
                     connected_to_rel_types depends_on_rel_types relationships resource_base
                   = Inl (DSLParsingLogicException 112
                        (filter (\<lambda>t. t \<in> contained_in_rel_types)
                           (map r_type node_relationships)))))
       \<and> (\<forall>result.
            post_process_node_relationships frames consts resource_exists processed_node
              processed_nodes plugins contained_in_rel_types connected_to_rel_types
              depends_on_rel_types relationships resource_base = Inr result
            \<longrightarrow> (\<exists>finished.
                   n_relationships (result ! processed_node) = Some finished
                   \<and> map r_type finished = map r_type node_relationships
                   \<and> map r_base finished =
                       map (\<lambda>r. Some (if r_type r \<in> contained_in_rel_types then ''contained''
                                       else if r_type r \<in> connected_to_rel_types
                                       then ''connected''
                                       else if r_type r \<in> depends_on_rel_types then ''depends''
                                       else ''undefined'')) node_relationships
                   \<and> length (filter (\<lambda>r. r_base r = Some ''contained'') finished) \<le> 1))"
proof (intro conjI allI impI)
  fix e
  assume "post_process_node_relationships_loop frames consts resource_exists
              node_relationships processed_node plugins contained_in_rel_types
              connected_to_rel_types depends_on_rel_types relationships resource_base
              (processed_nodes, [], []) = Inl e"
  then show "post_process_node_relationships frames consts resource_exists processed_node
                  processed_nodes plugins contained_in_rel_types connected_to_rel_types
                  depends_on_rel_types relationships resource_base = Inl e"
    using rels by (simp add: post_process_node_relationships_def)
next
  fix processed_nodes' finished contained_in_relationships
  assume loop: "post_process_node_relationships_loop frames consts resource_exists
              node_relationships processed_node plugins contained_in_rel_types
              connected_to_rel_types depends_on_rel_types relationships resource_base
              (processed_nodes, [], [])
            = Inr (processed_nodes', finished, contained_in_relationships)"
  note res = post_process_node_relationships_loop_result[OF loop]
  show "map r_base finished =
                map (\<lambda>r. Some (if r_type r \<in> contained_in_rel_types then ''contained''
                                else if r_type r \<in> connected_to_rel_types then ''connected''
                                else if r_type r \<in> depends_on_rel_types then ''depends''
                                else ''undefined'')) node_relationships"
    using res by auto
  show cl: "contained_in_relationships =
                filter (\<lambda>t. t \<in> contained_in_rel_types) (map r_type node_relationships)"
    using res by auto
  assume "1 < length (filter (\<lambda>r. r_type r \<in> contained_in_rel_types) node_relationships)"
  then have "1 < length contained_in_relationships"
    unfolding cl by (simp add: filter_map comp_def)
  then show "post_process_node_relationships frames consts resource_exists processed_node
                     processed_nodes plugins contained_in_rel_types connected_to_rel_types
                     depends_on_rel_types relationships resource_base
                   = Inl (DSLParsingLogicException 112
                        (filter (\<lambda>t. t \<in> contained_in_rel_types)
                           (map r_type node_relationships)))"
    using rels loop cl by (simp add: post_process_node_relationships_def)
next
  fix result
  assume ok: "post_process_node_relationships frames consts resource_exists processed_node
              processed_nodes plugins contained_in_rel_types connected_to_rel_types
              depends_on_rel_types relationships resource_base = Inr result"
  then obtain nodes' finished cl where
    r: "post_process_node_relationships_loop frames consts resource_exists
      node_relationships processed_node plugins contained_in_rel_types connected_to_rel_types
      depends_on_rel_types relationships resource_base (processed_nodes, [], [])
      = Inr (nodes', finished, cl)"
    using rels by (auto simp: post_process_node_relationships_def split: sum.splits)
  note res = post_process_node_relationships_loop_result[OF r]
  have few: "\<not> 1 < length cl" and result: "result = nodes'[processed_node :=
      (nodes' ! processed_node)\<lparr>n_relationships := Some finished\<rparr>]"
    using ok rels r by (auto simp: post_process_node_relationships_def split: if_splits)
  have "n_relationships (result ! processed_node) = Some finished"
    using result res bound by simp
  moreover have "length (filter (\<lambda>r. r_base r = Some ''contained'') finished) \<le> 1"
    using count_contained_bases[of finished node_relationships contained_in_rel_types
        connected_to_rel_types depends_on_rel_types] res few by auto
  ultimately show "\<exists>finished.
                   n_relationships (result ! processed_node) = Some finished
                   \<and> map r_type finished = map r_type node_relationships
                   \<and> map r_base finished =
                       map (\<lambda>r. Some (if r_type r \<in> contained_in_rel_types then ''contained''
                                       else if r_type r \<in> connected_to_rel_types
                                       then ''connected''
                                       else if r_type r \<in> depends_on_rel_types then ''depends''
                                       else ''undefined'')) node_relationships
                   \<and> length (filter (\<lambda>r. r_base r = Some ''contained'') finished) \<le> 1"
    using res by auto
qed

text \<open>
  Node \<open>web\<close> with two relationships of the contained-in family fails with 112; with one
  contained-in and one connected-to relationship it is processed and the bases are set.
\<close>

theorem relationship_base_and_single_containment_witness:
  "post_process_node_relationships 10 example_constants no_resources 0
     [example_node ''web'' ''t''
        (Some [example_processed_relationship ''cin'' ''host'',
               example_processed_relationship ''cin'' ''db'']),
      example_node ''host'' ''t'' None, example_node ''db'' ''t'' None]
     [] {''cin''} {''conn''} {} [(''cin'', example_type None), (''conn'', example_type None)] None
   = Inl (DSLParsingLogicException 112 [''cin'', ''cin''])
   \<and> post_process_node_relationships 10 example_constants no_resources 0
     [example_node ''web'' ''t''
        (Some [example_processed_relationship ''cin'' ''host'',
               example_processed_relationship ''conn'' ''db'']),
      example_node ''host'' ''t'' None, example_node ''db'' ''t'' None]
     [] {''cin''} {''conn''} {} [(''cin'', example_type None), (''conn'', example_type None)] None
   = Inr
       [example_node ''web'' ''t''
          (Some [(example_processed_relationship ''cin'' ''host'')
                   \<lparr>r_base := Some ''contained'', r_type_hierarchy := Some [''cin''],
                    r_source_operations := Some [], r_target_operations := Some []\<rparr>,
                 (example_processed_relationship ''conn'' ''db'')
                   \<lparr>r_base := Some ''connected'', r_type_hierarchy := Some [''conn''],
                    r_source_operations := Some [], r_target_operations := Some []\<rparr>]),
        example_node ''host'' ''t'' None, example_node ''db'' ''t'' None]"
proof -
  let ?nodes = "[example_node ''web'' ''t''
        (Some [example_processed_relationship ''cin'' ''host'',
               example_processed_relationship ''cin'' ''db'']),
      example_node ''host'' ''t'' None, example_node ''db'' ''t'' None]"
  have rels: "n_relationships (?nodes ! 0)
      = Some [example_processed_relationship ''cin'' ''host'',
              example_processed_relationship ''cin'' ''db'']"
    by (simp add: example_node_def)
  have bound: "0 < length ?nodes" by simp
  have loop: "post_process_node_relationships_loop 10 example_constants no_resources
          [example_processed_relationship ''cin'' ''host'',
           example_processed_relationship ''cin'' ''db''] 0 []
          {''cin''} {''conn''} {} [(''cin'', example_type None), (''conn'', example_type None)] None
          ([example_node ''web'' ''t''
              (Some [example_processed_relationship ''cin'' ''host'',
                     example_processed_relationship ''cin'' ''db'']),
            example_node ''host'' ''t'' None, example_node ''db'' ''t'' None], [], [])
       = Inr ([example_node ''web'' ''t''
              (Some [example_processed_relationship ''cin'' ''host'',
                     example_processed_relationship ''cin'' ''db'']),
            example_node ''host'' ''t'' None, example_node ''db'' ''t'' None],
            [(example_processed_relationship ''cin'' ''host'')
               \<lparr>r_base := Some ''contained'', r_type_hierarchy := Some [''cin''],
                r_source_operations := Some [], r_target_operations := Some []\<rparr>,
             (example_processed_relationship ''cin'' ''db'')
               \<lparr>r_base := Some ''contained'', r_type_hierarchy := Some [''cin''],
                r_source_operations := Some [], r_target_operations := Some []\<rparr>],
            [''cin'', ''cin''])"
    by (simp add: node_index_def process_node_relationships_operations_def
        relationship_interfaces_def set_relationship_operations_def
        process_context_operations_def add_base_type_to_relationship_def
        example_node_def example_processed_relationship_def
        example_type_def Let_def eval_nat_numeral)
  have many: "1 < length (filter (\<lambda>r. r_type r \<in> {''cin''})
      [example_processed_relationship ''cin'' ''host'',
       example_processed_relationship ''cin'' ''db''])"
    by (simp add: example_processed_relationship_def)
  have types: "filter (\<lambda>t. t \<in> {''cin''})
      (map r_type [example_processed_relationship ''cin'' ''host'',
                   example_processed_relationship ''cin'' ''db'']) = [''cin'', ''cin'']"
    by (simp add: example_processed_relationship_def)
  note a = relationship_base_and_single_containment[OF rels bound, of 10 example_constants
      no_resources "[]" "{''cin''}" "{''conn''}" "{}"
      "[(''cin'', example_type None), (''conn'', example_type None)]" None]
  note b = a[THEN conjunct2, THEN conjunct1]
  note c = b[rule_format]
  note d = c[OF loop]
  note e = d[THEN conjunct2, THEN conjunct2, rule_format, OF many]
  have ok: "post_process_node_relationships 10 example_constants no_resources 0
     [example_node ''web'' ''t''
        (Some [example_processed_relationship ''cin'' ''host'',
               example_processed_relationship ''conn'' ''db'']),
      example_node ''host'' ''t'' None, example_node ''db'' ''t'' None]
     [] {''cin''} {''conn''} {} [(''cin'', example_type None), (''conn'', example_type None)] None
   = Inr
       [example_node ''web'' ''t''
          (Some [(example_processed_relationship ''cin'' ''host'')
                   \<lparr>r_base := Some ''contained'', r_type_hierarchy := Some [''cin''],
                    r_source_operations := Some [], r_target_operations := Some []\<rparr>,
                 (example_processed_relationship ''conn'' ''db'')
                   \<lparr>r_base := Some ''connected'', r_type_hierarchy := Some [''conn''],
                    r_source_operations := Some [], r_target_operations := Some []\<rparr>]),
        example_node ''host'' ''t'' None, example_node ''db'' ''t'' None]"
    by (simp add: post_process_node_relationships_def node_index_def
        process_node_relationships_operations_def
        relationship_interfaces_def set_relationship_operations_def
        process_context_operations_def add_base_type_to_relationship_def
        example_node_def example_processed_relationship_def
        example_type_def Let_def eval_nat_numeral)
  show ?thesis using e ok unfolding types by (rule conjI)
qed

text \<open>
  The claim as stated fails where the loop raises.  Node \<open>web\<close> has two relationships of
  the contained-in family, and the first declares in its source interfaces the operation
  \<open>start\<close> with the mapping \<open>nope.run\<close>, which no plugin and no resource provides.
  Binding the operations of that relationship raises the logic error 19 inside the loop,
  before the containment check is reached, so post-processing does not fail with 112.
\<close>

theorem relationship_containment_after_operations_counterexample:
  "post_process_node_relationships 10 example_constants no_resources 0
     [example_node ''web'' ''t''
        (Some [(example_processed_relationship ''cin'' ''host'')
                 \<lparr>r_source_interfaces :=
                    Some [(''lifecycle'', [(''start'', OpStr ''nope.run'')])]\<rparr>,
               example_processed_relationship ''cin'' ''db'']),
      example_node ''host'' ''t'' None, example_node ''db'' ''t'' None]
     [] {''cin''} {''conn''} {} [(''cin'', example_type None), (''conn'', example_type None)] None
   = Inl (DSLParsingLogicException 19
            [''nope.run'', ''start'', ''operation'',
             ''In interface lifecycle in relationship of type cin in node web''])"
  by (simp add: post_process_node_relationships_def node_index_def
      process_node_relationships_operations_def relationship_interfaces_def
      process_context_operations_def
      extract_plugin_names_and_operation_mapping_from_interface_def
      extract_plugin_name_and_operation_mapping_from_operation_def startswith_def
      no_resources_def example_node_def example_processed_relationship_def Let_def)

section \<open>Host ids\<close>

lemma extract_node_host_id_ignores_host_id:
  assumes "n'\<lparr>n_host_id := None\<rparr> = n\<lparr>n_host_id := None\<rparr>"
    and "\<forall>k. map_option (\<lambda>x. x\<lparr>n_host_id := None\<rparr>) (m' k)
             = map_option (\<lambda>x. x\<lparr>n_host_id := None\<rparr>) (m k)"
  shows "extract_node_host_id frames n' m' hs cs = extract_node_host_id frames n m hs cs"
  using assms
proof (induction frames arbitrary: n n')
  case 0
  show ?case by simp
next
  case (Suc frames)
  note e = Suc.prems(1) and me = Suc.prems(2)
  have same: "n_type n' = n_type n" "n_id n' = n_id n"
    "n_relationships n' = n_relationships n"
    using arg_cong[OF e, of n_type] arg_cong[OF e, of n_id]
      arg_cong[OF e, of n_relationships] by simp_all
  show ?case
  proof (cases "n_type n \<in> hs")
    case True
    then show ?thesis using same by simp
  next
    case host: False
    show ?thesis
    proof (cases "n_relationships n")
      case None
      then show ?thesis using same host by simp
    next
      case (Some rels)
      note rels = this
      show ?thesis
      proof (cases "find (\<lambda>rel. r_type rel \<in> cs) rels")
        case None
        then show ?thesis using same host rels by simp
      next
        case (Some rel)
        note rel = this
        show ?thesis
        proof (cases "r_target_id rel")
          case None
          then show ?thesis using same host rels rel by simp
        next
          case (Some t)
          note t = this
          show ?thesis
          proof (cases "m t")
            case None
            then have "m' t = None" using me[rule_format, of t] by simp
            then show ?thesis using same host rels rel t None by simp
          next
            case (Some tn)
            then obtain tn' where tn': "m' t = Some tn'"
              "tn'\<lparr>n_host_id := None\<rparr> = tn\<lparr>n_host_id := None\<rparr>"
              using me[rule_format, of t] by (cases "m' t") auto
            have "extract_node_host_id frames tn' m' hs cs
                = extract_node_host_id frames tn m hs cs"
              using Suc.IH[OF tn'(2) me] .
            then show ?thesis using same host rels rel t tn'(1) Some by simp
          qed
        qed
      qed
    qed
  qed
qed

lemma extract_node_host_id_mono:
  "extract_node_host_id f n m hs cs = Inr hid \<Longrightarrow> f \<le> f'
   \<Longrightarrow> extract_node_host_id f' n m hs cs = Inr hid"
proof (induction f arbitrary: f' n)
  case 0
  then show ?case by simp
next
  case (Suc f)
  then obtain g where g: "f' = Suc g" "f \<le> g" by (cases f') auto
  show ?case
  proof (cases "n_type n \<in> hs")
    case True
    then show ?thesis using Suc.prems(1) g by simp
  next
    case host: False
    show ?thesis
    proof (cases "n_relationships n")
      case None
      then show ?thesis using Suc.prems(1) g host by simp
    next
      case (Some rels)
      note rels = this
      show ?thesis
      proof (cases "find (\<lambda>rel. r_type rel \<in> cs) rels")
        case None
        then show ?thesis using Suc.prems(1) g host rels by simp
      next
        case (Some rel)
        note rel = this
        from Suc.prems(1) host rels rel obtain t where t: "r_target_id rel = Some t"
          by (cases "r_target_id rel") auto
        from Suc.prems(1) host rels rel t obtain tn where tn: "m t = Some tn"
          by (cases "m t") auto
        have "extract_node_host_id f tn m hs cs = Inr hid"
          using Suc.prems(1) host rels rel t tn by simp
        then have "extract_node_host_id g tn m hs cs = Inr hid"
          using Suc.IH g(2) by blast
        then show ?thesis using g(1) host rels rel t tn by simp
      qed
    qed
  qed
qed

lemma extract_node_host_id_hosted:
  "extract_node_host_id frames n m hs cs = Inr (Some h)
   \<Longrightarrow> \<exists>host. hosted_by m hs cs n host \<and> n_id host = h"
proof (induction frames arbitrary: n)
  case 0
  then show ?case by simp
next
  case (Suc frames)
  show ?case
  proof (cases "n_type n \<in> hs")
    case True
    then show ?thesis using Suc.prems hosted_by.self[of n hs m cs] by auto
  next
    case host: False
    then obtain rels where rels: "n_relationships n = Some rels"
      using Suc.prems by (cases "n_relationships n") auto
    then obtain rel where rel: "find (\<lambda>rel. r_type rel \<in> cs) rels = Some rel"
      using Suc.prems host by (cases "find (\<lambda>rel. r_type rel \<in> cs) rels") auto
    then obtain t where t: "r_target_id rel = Some t"
      using Suc.prems host rels by (cases "r_target_id rel") auto
    then obtain tn where tn: "m t = Some tn"
      using Suc.prems host rels rel by (cases "m t") auto
    then have "extract_node_host_id frames tn m hs cs = Inr (Some h)"
      using Suc.prems host rels rel t by simp
    then obtain hostn where hn: "hosted_by m hs cs tn hostn" "n_id hostn = h"
      using Suc.IH by blast
    have "rel \<in> set rels" "r_type rel \<in> cs"
      using rel by (auto simp: find_Some_iff)
    then show ?thesis
      using hosted_by.climb[OF host rels _ _ t tn hn(1)] hn(2) by blast
  qed
qed

text \<open>
  Each node on the containment chain costs one frame: the recursion returns exactly when
  the chain ends within the frames that are left.
\<close>

lemma extract_node_host_id_within:
  assumes "containment_depth m hs cs n k" and "k \<le> frames"
  shows "\<exists>hid. extract_node_host_id frames n m hs cs = Inr hid"
  using assms
proof (induction arbitrary: frames rule: containment_depth.induct)
  case (host n)
  then obtain f where "frames = Suc f" by (cases frames) auto
  then show ?case using host by simp
next
  case (bare n)
  then obtain f where "frames = Suc f" by (cases frames) auto
  then show ?case using bare by simp
next
  case (free n node_relationships)
  then obtain f where "frames = Suc f" by (cases frames) auto
  then show ?case using free by simp
next
  case (climb n node_relationships rel target_id target_node k)
  from climb.prems obtain f where f: "frames = Suc f" "k \<le> f" by (cases frames) auto
  from climb.IH[OF f(2)] obtain hid where
    "extract_node_host_id f target_node m hs cs = Inr hid" by blast
  then show ?case using climb.hyps f(1) by simp
qed

lemma extract_node_host_id_returns_only_within:
  "extract_node_host_id frames n m hs cs = Inr hid
   \<Longrightarrow> \<exists>k \<le> frames. containment_depth m hs cs n k"
proof (induction frames arbitrary: n)
  case 0
  then show ?case by simp
next
  case (Suc frames)
  show ?case
  proof (cases "n_type n \<in> hs")
    case True
    then have "containment_depth m hs cs n (Suc 0)" by (rule containment_depth.host)
    then show ?thesis by auto
  next
    case host: False
    show ?thesis
    proof (cases "n_relationships n")
      case None
      then have "containment_depth m hs cs n (Suc 0)"
        using host by (intro containment_depth.bare)
      then show ?thesis by auto
    next
      case (Some rels)
      note rels = this
      show ?thesis
      proof (cases "find (\<lambda>rel. r_type rel \<in> cs) rels")
        case None
        then have "containment_depth m hs cs n (Suc 0)"
          using host rels by (intro containment_depth.free)
        then show ?thesis by auto
      next
        case (Some rel)
        note rel = this
        from Suc.prems host rels rel obtain t where t: "r_target_id rel = Some t"
          by (cases "r_target_id rel") auto
        from Suc.prems host rels rel t obtain tn where tn: "m t = Some tn"
          by (cases "m t") auto
        have "extract_node_host_id frames tn m hs cs = Inr hid"
          using Suc.prems host rels rel t tn by simp
        from Suc.IH[OF this] obtain k where k: "k \<le> frames" "containment_depth m hs cs tn k"
          by blast
        have "containment_depth m hs cs n (Suc k)"
          using containment_depth.climb[OF host rels rel t tn k(2)] .
        then show ?thesis using k(1) by auto
      qed
    qed
  qed
qed

lemma hosted_by_host_type:
  "hosted_by m hs cs n host \<Longrightarrow> n_type host \<in> hs"
  by (induction rule: hosted_by.induct) auto

lemma hosted_by_member:
  "hosted_by m hs cs n host \<Longrightarrow> host = n \<or> (\<exists>k. m k = Some host)"
  by (induction rule: hosted_by.induct) auto

lemma node_index_bound:
  assumes "node_index nodes k = Some i"
  shows "i < length nodes \<and> n_id (nodes ! i) = k"
proof -
  from assms obtain rest where
    "filter (\<lambda>i. n_id (nodes ! i) = k) (rev [0 ..< length nodes]) = i # rest"
    by (auto simp: node_index_def split: list.splits)
  then have "i \<in> set (filter (\<lambda>i. n_id (nodes ! i) = k) (rev [0 ..< length nodes]))"
    by simp
  then show ?thesis by auto
qed

lemma node_index_cong:
  assumes "map n_id nodes = map n_id nodes0"
  shows "node_index nodes k = node_index nodes0 k"
proof -
  have len: "length nodes = length nodes0" using assms by (metis length_map)
  have "n_id (nodes ! i) = n_id (nodes0 ! i)" if "i < length nodes" for i
    using assms that len by (metis nth_map)
  then have "filter (\<lambda>i. n_id (nodes ! i) = k) (rev [0 ..< length nodes])
      = filter (\<lambda>i. n_id (nodes0 ! i) = k) (rev [0 ..< length nodes])"
    by (intro filter_cong) auto
  then show ?thesis by (simp add: node_index_def len)
qed

lemma node_index_distinct:
  assumes "distinct (map n_id nodes)" and "i < length nodes"
  shows "node_index nodes (n_id (nodes ! i)) = Some i"
proof -
  have "i \<in> set (filter (\<lambda>j. n_id (nodes ! j) = n_id (nodes ! i)) (rev [0 ..< length nodes]))"
    using assms(2) by simp
  then obtain j where j: "node_index nodes (n_id (nodes ! i)) = Some j"
    by (cases "filter (\<lambda>j. n_id (nodes ! j) = n_id (nodes ! i)) (rev [0 ..< length nodes])")
      (auto simp: node_index_def)
  then have "j < length nodes" "n_id (nodes ! j) = n_id (nodes ! i)"
    using node_index_bound by blast+
  then have "j = i" using assms nth_eq_iff_index_eq[of "map n_id nodes" j i] by simp
  then show ?thesis using j by simp
qed

lemma erased_ids:
  assumes "map (\<lambda>x. x\<lparr>n_host_id := None\<rparr>) nodes = map (\<lambda>x. x\<lparr>n_host_id := None\<rparr>) nodes0"
  shows "map n_id nodes = map n_id nodes0"
proof -
  have "map n_id (map (\<lambda>x. x\<lparr>n_host_id := None\<rparr>) nodes)
      = map n_id (map (\<lambda>x. x\<lparr>n_host_id := None\<rparr>) nodes0)"
    using assms by simp
  then show ?thesis by (simp add: comp_def)
qed

lemma erased_nth:
  assumes "map (\<lambda>x. x\<lparr>n_host_id := None\<rparr>) nodes = map (\<lambda>x. x\<lparr>n_host_id := None\<rparr>) nodes0"
    and "i < length nodes0"
  shows "(nodes ! i)\<lparr>n_host_id := None\<rparr> = (nodes0 ! i)\<lparr>n_host_id := None\<rparr>"
proof -
  have len: "length nodes = length nodes0" using assms(1) by (metis length_map)
  have "map (\<lambda>x. x\<lparr>n_host_id := None\<rparr>) nodes ! i = map (\<lambda>x. x\<lparr>n_host_id := None\<rparr>) nodes0 ! i"
    using assms(1) by simp
  then show ?thesis using assms(2) len by simp
qed

lemma node_name_to_node_erased:
  assumes "map (\<lambda>x. x\<lparr>n_host_id := None\<rparr>) nodes = map (\<lambda>x. x\<lparr>n_host_id := None\<rparr>) nodes0"
  shows "map_option (\<lambda>x. x\<lparr>n_host_id := None\<rparr>) (node_name_to_node nodes k)
         = map_option (\<lambda>x. x\<lparr>n_host_id := None\<rparr>) (node_name_to_node nodes0 k)"
proof (cases "node_index nodes0 k")
  case None
  then show ?thesis
    using node_index_cong[OF erased_ids[OF assms], of k] by (simp add: node_name_to_node_def)
next
  case (Some i)
  then have "i < length nodes0" using node_index_bound by blast
  then show ?thesis
    using Some node_index_cong[OF erased_ids[OF assms], of k] erased_nth[OF assms]
    by (simp add: node_name_to_node_def)
qed

lemma host_id_update_erased:
  assumes "map (\<lambda>x. x\<lparr>n_host_id := None\<rparr>) nodes = map (\<lambda>x. x\<lparr>n_host_id := None\<rparr>) nodes0"
    and "i < length nodes0"
  shows "map (\<lambda>x. x\<lparr>n_host_id := None\<rparr>)
           (case hid of
              None \<Rightarrow> nodes
            | Some h \<Rightarrow> if h \<noteq> [] then nodes[i := (nodes ! i)\<lparr>n_host_id := Some h\<rparr>] else nodes)
         = map (\<lambda>x. x\<lparr>n_host_id := None\<rparr>) nodes0"
proof -
  have len: "length nodes = length nodes0" using assms(1) by (metis length_map)
  have "map (\<lambda>x. x\<lparr>n_host_id := None\<rparr>) (nodes[i := (nodes ! i)\<lparr>n_host_id := Some h\<rparr>])
      = map (\<lambda>x. x\<lparr>n_host_id := None\<rparr>) nodes" for h
    by (simp add: map_update list_update_same_conv len assms(2))
  then show ?thesis using assms(1) by (simp split: option.splits)
qed

lemma extract_node_host_id_erased:
  assumes "map (\<lambda>x. x\<lparr>n_host_id := None\<rparr>) nodes = map (\<lambda>x. x\<lparr>n_host_id := None\<rparr>) nodes0"
    and "i < length nodes0"
  shows "extract_node_host_id frames (nodes ! i) (node_name_to_node nodes) hs cs
         = extract_node_host_id frames (nodes0 ! i) (node_name_to_node nodes0) hs cs"
  using extract_node_host_id_ignores_host_id[of "nodes ! i" "nodes0 ! i"
      "node_name_to_node nodes" "node_name_to_node nodes0" frames hs cs]
    erased_nth[OF assms] node_name_to_node_erased[OF assms(1)]
  by simp

lemma host_ids_loop_result:
  assumes "host_ids_loop frames idxs nodes hs cs = Inr nodes'"
    and "map (\<lambda>x. x\<lparr>n_host_id := None\<rparr>) nodes = map (\<lambda>x. x\<lparr>n_host_id := None\<rparr>) nodes0"
    and "distinct idxs" and "\<forall>i \<in> set idxs. i < length nodes0"
  shows "map (\<lambda>x. x\<lparr>n_host_id := None\<rparr>) nodes' = map (\<lambda>x. x\<lparr>n_host_id := None\<rparr>) nodes0
     \<and> (\<forall>i \<in> set idxs. \<exists>hid.
           extract_node_host_id frames (nodes0 ! i) (node_name_to_node nodes0) hs cs = Inr hid
           \<and> n_host_id (nodes' ! i)
               = (case hid of
                    None \<Rightarrow> n_host_id (nodes ! i)
                  | Some h \<Rightarrow> if h \<noteq> [] then Some h else n_host_id (nodes ! i)))
     \<and> (\<forall>i < length nodes0. i \<notin> set idxs \<longrightarrow> n_host_id (nodes' ! i) = n_host_id (nodes ! i))"
  using assms
proof (induction idxs arbitrary: nodes)
  case Nil
  then show ?case by simp
next
  case (Cons i rest)
  have len: "length nodes = length nodes0" using Cons.prems(2) by (metis length_map)
  have i: "i < length nodes0" using Cons.prems(4) by simp
  from Cons.prems(1) obtain hid where
    r: "extract_node_host_id frames (nodes ! i) (node_name_to_node nodes) hs cs = Inr hid"
    by (auto split: sum.splits)
  define nodes1 where "nodes1 =
      (case hid of
         None \<Rightarrow> nodes
       | Some h \<Rightarrow> if h \<noteq> [] then nodes[i := (nodes ! i)\<lparr>n_host_id := Some h\<rparr>] else nodes)"
  have rest: "host_ids_loop frames rest nodes1 hs cs = Inr nodes'"
    using Cons.prems(1) r by (simp add: nodes1_def)
  have e0: "extract_node_host_id frames (nodes0 ! i) (node_name_to_node nodes0) hs cs
            = Inr hid"
    using extract_node_host_id_erased[OF Cons.prems(2) i] r by simp
  have R1: "map (\<lambda>x. x\<lparr>n_host_id := None\<rparr>) nodes1 = map (\<lambda>x. x\<lparr>n_host_id := None\<rparr>) nodes0"
    unfolding nodes1_def by (rule host_id_update_erased[OF Cons.prems(2) i])
  have other: "nodes1 ! j = nodes ! j" if "j \<noteq> i" for j
    using that by (simp add: nodes1_def split: option.splits)
  have here: "n_host_id (nodes1 ! i)
      = (case hid of
           None \<Rightarrow> n_host_id (nodes ! i)
         | Some h \<Rightarrow> if h \<noteq> [] then Some h else n_host_id (nodes ! i))"
    using i len by (simp add: nodes1_def split: option.splits)
  from Cons.IH[OF rest R1] Cons.prems(3,4)
  have IH: "map (\<lambda>x. x\<lparr>n_host_id := None\<rparr>) nodes' = map (\<lambda>x. x\<lparr>n_host_id := None\<rparr>) nodes0"
    "\<forall>j \<in> set rest. \<exists>hid.
           extract_node_host_id frames (nodes0 ! j) (node_name_to_node nodes0) hs cs = Inr hid
           \<and> n_host_id (nodes' ! j)
               = (case hid of
                    None \<Rightarrow> n_host_id (nodes1 ! j)
                  | Some h \<Rightarrow> if h \<noteq> [] then Some h else n_host_id (nodes1 ! j))"
    "\<forall>j < length nodes0. j \<notin> set rest \<longrightarrow> n_host_id (nodes' ! j) = n_host_id (nodes1 ! j)"
    by simp_all
  have notin: "i \<notin> set rest" using Cons.prems(3) by simp
  show ?case
  proof (intro conjI ballI allI impI)
    show "map (\<lambda>x. x\<lparr>n_host_id := None\<rparr>) nodes' = map (\<lambda>x. x\<lparr>n_host_id := None\<rparr>) nodes0"
      by (rule IH(1))
  next
    fix j assume j: "j \<in> set (i # rest)"
    show "\<exists>hid.
           extract_node_host_id frames (nodes0 ! j) (node_name_to_node nodes0) hs cs = Inr hid
           \<and> n_host_id (nodes' ! j)
               = (case hid of
                    None \<Rightarrow> n_host_id (nodes ! j)
                  | Some h \<Rightarrow> if h \<noteq> [] then Some h else n_host_id (nodes ! j))"
    proof (cases "j = i")
      case True
      then have "n_host_id (nodes' ! j) = n_host_id (nodes1 ! i)"
        using IH(3) i notin by simp
      then show ?thesis using True e0 here by auto
    next
      case False
      then have "j \<in> set rest" using j by simp
      then obtain hj where
        "extract_node_host_id frames (nodes0 ! j) (node_name_to_node nodes0) hs cs = Inr hj"
        "n_host_id (nodes' ! j)
           = (case hj of
                None \<Rightarrow> n_host_id (nodes1 ! j)
              | Some h \<Rightarrow> if h \<noteq> [] then Some h else n_host_id (nodes1 ! j))"
        using IH(2) by blast
      then show ?thesis using other[OF False] by (intro exI[of _ hj]) (simp split: option.splits)
    qed
  next
    fix j assume "j < length nodes0" "j \<notin> set (i # rest)"
    then show "n_host_id (nodes' ! j) = n_host_id (nodes ! j)"
      using IH(3) other[of j] by simp
  qed
qed

lemma host_ids_loop_returns:
  assumes "map (\<lambda>x. x\<lparr>n_host_id := None\<rparr>) nodes = map (\<lambda>x. x\<lparr>n_host_id := None\<rparr>) nodes0"
    and "\<forall>i \<in> set idxs. i < length nodes0"
    and "\<forall>i \<in> set idxs. \<exists>hid.
           extract_node_host_id frames (nodes0 ! i) (node_name_to_node nodes0) hs cs = Inr hid"
  shows "\<exists>nodes'. host_ids_loop frames idxs nodes hs cs = Inr nodes'"
  using assms
proof (induction idxs arbitrary: nodes)
  case Nil
  then show ?case by simp
next
  case (Cons i rest)
  have i: "i < length nodes0" using Cons.prems(2) by simp
  from Cons.prems(3) obtain hid where
    "extract_node_host_id frames (nodes0 ! i) (node_name_to_node nodes0) hs cs = Inr hid"
    by auto
  then have r: "extract_node_host_id frames (nodes ! i) (node_name_to_node nodes) hs cs
                = Inr hid"
    using extract_node_host_id_erased[OF Cons.prems(1) i] by simp
  note R1 = host_id_update_erased[OF Cons.prems(1) i, of hid]
  from Cons.IH[OF R1] Cons.prems(2,3) obtain nodes' where
    "host_ids_loop frames rest
       (case hid of
          None \<Rightarrow> nodes
        | Some h \<Rightarrow> if h \<noteq> [] then nodes[i := (nodes ! i)\<lparr>n_host_id := Some h\<rparr>] else nodes)
       hs cs = Inr nodes'"
    by auto
  then show ?case using r by simp
qed

lemma host_ids_loop_raises:
  assumes "map (\<lambda>x. x\<lparr>n_host_id := None\<rparr>) nodes = map (\<lambda>x. x\<lparr>n_host_id := None\<rparr>) nodes0"
    and "\<forall>i \<in> set idxs. i < length nodes0"
    and "i \<in> set idxs"
    and "extract_node_host_id frames (nodes0 ! i) (node_name_to_node nodes0) hs cs = Inl e"
  shows "\<exists>e'. host_ids_loop frames idxs nodes hs cs = Inl e'"
  using assms
proof (induction idxs arbitrary: nodes)
  case Nil
  then show ?case by simp
next
  case (Cons j rest)
  have j: "j < length nodes0" using Cons.prems(2) by simp
  note same = extract_node_host_id_erased[OF Cons.prems(1) j, of frames hs cs]
  show ?case
  proof (cases "extract_node_host_id frames (nodes ! j) (node_name_to_node nodes) hs cs")
    case (Inl e')
    then show ?thesis by simp
  next
    case (Inr hid)
    then have "i \<noteq> j" using same Cons.prems(4) by auto
    then have i: "i \<in> set rest" using Cons.prems(3) by simp
    note R1 = host_id_update_erased[OF Cons.prems(1) j, of hid]
    from Cons.IH[OF R1 _ i Cons.prems(4)] Cons.prems(2) obtain e' where
      "host_ids_loop frames rest
         (case hid of
            None \<Rightarrow> nodes
          | Some h \<Rightarrow> if h \<noteq> [] then nodes[j := (nodes ! j)\<lparr>n_host_id := Some h\<rparr>] else nodes)
         hs cs = Inl e'"
      by auto
    then show ?thesis using Inr by simp
  qed
qed

lemma build_family_descendants_loop_result:
  "build_family_descendants_loop frames keys types d = Inr family
   \<Longrightarrow> family = {t \<in> set keys. is_derived_from (frames - 1) t types d = Inr True}"
proof (induction keys arbitrary: family)
  case Nil
  then show ?case by simp
next
  case (Cons k keys)
  from Cons.prems obtain b where b: "is_derived_from (frames - 1) k types d = Inr b"
    by (auto split: sum.splits)
  from Cons.prems b obtain fam where
    fam: "build_family_descendants_loop frames keys types d = Inr fam"
    by (auto split: sum.splits)
  have "family = (if b then insert k fam else fam)" using Cons.prems b fam by simp
  moreover have "fam = {t \<in> set keys. is_derived_from (frames - 1) t types d = Inr True}"
    using Cons.IH fam by simp
  ultimately show ?case using b by auto
qed

lemma build_family_descendants_loop_returns:
  assumes "\<forall>t \<in> set keys. \<exists>k \<le> frames - 1. hierarchy_depth types t k"
  shows "\<exists>family. build_family_descendants_loop frames keys types d = Inr family"
  using assms
proof (induction keys)
  case Nil
  then show ?case by simp
next
  case (Cons t keys)
  from Cons.prems obtain k where k: "k \<le> frames - 1" "hierarchy_depth types t k" by auto
  from create_type_hierarchy_within[OF k(2) k(1)] obtain b where
    "is_derived_from (frames - 1) t types d = Inr b" by blast
  moreover from Cons obtain family where
    "build_family_descendants_loop frames keys types d = Inr family" by auto
  ultimately show ?case by simp
qed

lemma find_the_only_one:
  assumes "rel \<in> set rels" and "P rel" and "length (filter P rels) \<le> 1"
  shows "find P rels = Some rel"
  using assms
proof (induction rels)
  case Nil
  then show ?case by simp
next
  case (Cons r rels)
  show ?case
  proof (cases "P r")
    case True
    then have "filter P rels = []" using Cons.prems(3) by simp
    then have "rel \<notin> set rels" using Cons.prems(2) by (metis filter_empty_conv)
    then show ?thesis using Cons.prems(1) True by simp
  next
    case False
    then show ?thesis using Cons by auto
  qed
qed

lemma host_id_erased_eq:
  assumes "(x::node)\<lparr>n_host_id := None\<rparr> = y\<lparr>n_host_id := None\<rparr>"
  shows "x = y\<lparr>n_host_id := n_host_id x\<rparr>"
proof -
  have "(x\<lparr>n_host_id := None\<rparr>)\<lparr>n_host_id := n_host_id x\<rparr>
      = (y\<lparr>n_host_id := None\<rparr>)\<lparr>n_host_id := n_host_id x\<rparr>"
    using assms by simp
  then show ?thesis by simp
qed

text \<open>
  The three parts of the claim about \<open>host_id\<close>: when the pass returns, when it raises,
  and what it has set when it returns.
\<close>

lemma host_ids_pass_returns:
  assumes "\<forall>t \<in> fst ` set types. \<exists>k \<le> frames - 2. hierarchy_depth types t k"
    and "\<forall>n \<in> set processed_nodes. \<exists>k \<le> frames.
           containment_depth (node_name_to_node processed_nodes)
             {t \<in> fst ` set types. is_derived_from (frames - 2) t types HOST_TYPE = Inr True}
             contained_in_rel_types n k"
  shows "\<exists>result. post_process_nodes_host_ids frames processed_nodes types
                    contained_in_rel_types = Inr result"
proof -
  have "\<forall>t \<in> set (map fst types). \<exists>k \<le> frames - 1 - 1. hierarchy_depth types t k"
    using assms(1) by (simp add: numeral_2_eq_2)
  from build_family_descendants_loop_returns[OF this, of HOST_TYPE] obtain hs where
    hs: "build_family_descendants_set (frames - 1) types HOST_TYPE = Inr hs"
    by (auto simp: build_family_descendants_set_def)
  have hs_eq: "hs = {t \<in> fst ` set types.
                      is_derived_from (frames - 2) t types HOST_TYPE = Inr True}"
    using build_family_descendants_loop_result[of "frames - 1" "map fst types" types
        HOST_TYPE hs] hs
    by (simp add: build_family_descendants_set_def numeral_2_eq_2)
  have each: "\<exists>hid. extract_node_host_id frames (processed_nodes ! i)
                 (node_name_to_node processed_nodes) hs contained_in_rel_types = Inr hid"
    if "i < length processed_nodes" for i
  proof -
    have "processed_nodes ! i \<in> set processed_nodes" using that by simp
    with assms(2) obtain k where "k \<le> frames"
      "containment_depth (node_name_to_node processed_nodes) hs contained_in_rel_types
         (processed_nodes ! i) k"
      unfolding hs_eq by blast
    then show ?thesis by (rule extract_node_host_id_within[rotated])
  qed
  have bounds: "\<forall>i \<in> set [0 ..< length processed_nodes]. i < length processed_nodes"
    by simp
  have all: "\<forall>i \<in> set [0 ..< length processed_nodes]. \<exists>hid.
      extract_node_host_id frames (processed_nodes ! i) (node_name_to_node processed_nodes)
        hs contained_in_rel_types = Inr hid"
    using each by simp
  from host_ids_loop_returns[OF refl bounds all] obtain nodes' where
    "host_ids_loop frames [0 ..< length processed_nodes] processed_nodes
       hs contained_in_rel_types = Inr nodes'"
    by blast
  then show ?thesis using hs by (simp add: post_process_nodes_host_ids_def)
qed

lemma host_ids_pass_raises:
  assumes "n \<in> set processed_nodes"
    and "\<forall>k \<le> frames.
           \<not> containment_depth (node_name_to_node processed_nodes)
               {t \<in> fst ` set types. is_derived_from (frames - 2) t types HOST_TYPE = Inr True}
               contained_in_rel_types n k"
  shows "\<exists>e. post_process_nodes_host_ids frames processed_nodes types
               contained_in_rel_types = Inl e"
proof (cases "build_family_descendants_set (frames - 1) types HOST_TYPE")
  case (Inl e)
  then show ?thesis by (simp add: post_process_nodes_host_ids_def)
next
  case (Inr hs)
  have hs_eq: "hs = {t \<in> fst ` set types.
                      is_derived_from (frames - 2) t types HOST_TYPE = Inr True}"
    using build_family_descendants_loop_result[of "frames - 1" "map fst types" types
        HOST_TYPE hs] Inr
    by (simp add: build_family_descendants_set_def numeral_2_eq_2)
  from assms(1) obtain i where i: "i < length processed_nodes" "processed_nodes ! i = n"
    by (auto simp: in_set_conv_nth)
  obtain e where
    e: "extract_node_host_id frames (processed_nodes ! i)
          (node_name_to_node processed_nodes) hs contained_in_rel_types = Inl e"
  proof (cases "extract_node_host_id frames (processed_nodes ! i)
          (node_name_to_node processed_nodes) hs contained_in_rel_types")
    case (Inl e)
    then show ?thesis using that by blast
  next
    case (Inr hid)
    then show ?thesis
      using extract_node_host_id_returns_only_within[OF Inr] assms(2) i(2) hs_eq by blast
  qed
  have "\<exists>e'. host_ids_loop frames [0 ..< length processed_nodes] processed_nodes
                hs contained_in_rel_types = Inl e'"
    using i(1) by (intro host_ids_loop_raises[OF refl _ _ e]) auto
  then show ?thesis using Inr by (simp add: post_process_nodes_host_ids_def)
qed

lemma host_ids_pass_result:
  assumes ok: "post_process_nodes_host_ids frames processed_nodes types contained_in_rel_types
                 = Inr result"
    and ids: "distinct (map n_id processed_nodes)"
    and fresh: "\<forall>n \<in> set processed_nodes. n_host_id n = None"
    and single: "\<forall>n \<in> set processed_nodes. \<forall>rels. n_relationships n = Some rels
                   \<longrightarrow> length (filter (\<lambda>r. r_type r \<in> contained_in_rel_types) rels) \<le> 1"
    and i: "i < length processed_nodes"
  shows "\<exists>host_types.
           build_family_descendants_set (frames - 1) types HOST_TYPE = Inr host_types
         \<and> host_types
             = {t \<in> fst ` set types. is_derived_from (frames - 2) t types HOST_TYPE = Inr True}
         \<and> length result = length processed_nodes
         \<and> result ! i = (processed_nodes ! i)\<lparr>n_host_id := n_host_id (result ! i)\<rparr>
         \<and> (n_host_id (result ! i) = Some (n_id (processed_nodes ! i))
              \<longrightarrow> n_type (processed_nodes ! i) \<in> host_types)
         \<and> (n_type (processed_nodes ! i) \<in> host_types \<and> n_id (processed_nodes ! i) \<noteq> []
              \<longrightarrow> n_host_id (result ! i) = Some (n_id (processed_nodes ! i)))
         \<and> (n_type (processed_nodes ! i) \<notin> host_types
              \<longrightarrow> (\<forall>rels rel.
                     n_relationships (processed_nodes ! i) = Some rels \<and> rel \<in> set rels
                     \<and> r_type rel \<in> contained_in_rel_types
                     \<longrightarrow> (\<exists>target_id j.
                            r_target_id rel = Some target_id
                          \<and> node_index processed_nodes target_id = Some j
                          \<and> n_host_id (result ! i) = n_host_id (result ! j))))
         \<and> (\<forall>h. n_host_id (result ! i) = Some h
              \<longrightarrow> (\<exists>host. hosted_by (node_name_to_node processed_nodes) host_types
                             contained_in_rel_types (processed_nodes ! i) host
                         \<and> n_id host = h))"
proof -
  let ?m = "node_name_to_node processed_nodes"
  let ?cs = "contained_in_rel_types"
  from ok obtain hs where hs: "build_family_descendants_set (frames - 1) types HOST_TYPE = Inr hs"
    by (auto simp: post_process_nodes_host_ids_def split: sum.splits)
  have loop: "host_ids_loop frames [0 ..< length processed_nodes] processed_nodes hs ?cs
      = Inr result"
    using ok hs by (simp add: post_process_nodes_host_ids_def)
  have hs_eq: "hs = {t \<in> fst ` set types.
                      is_derived_from (frames - 2) t types HOST_TYPE = Inr True}"
    using build_family_descendants_loop_result[of "frames - 1" "map fst types" types
        HOST_TYPE hs] hs
    by (simp add: build_family_descendants_set_def numeral_2_eq_2)
  have pre: "distinct [0 ..< length processed_nodes]"
    "\<forall>i \<in> set [0 ..< length processed_nodes]. i < length processed_nodes"
    by simp_all
  note res = host_ids_loop_result[OF loop refl pre]
  have er: "map (\<lambda>x. x\<lparr>n_host_id := None\<rparr>) result
      = map (\<lambda>x. x\<lparr>n_host_id := None\<rparr>) processed_nodes"
    using res by (rule conjunct1)
  have len: "length result = length processed_nodes" using er by (metis length_map)
  have none: "n_host_id (processed_nodes ! k) = None" if "k < length processed_nodes" for k
    using fresh that by simp
  have each: "\<exists>hid. extract_node_host_id frames (processed_nodes ! k) ?m hs ?cs = Inr hid
      \<and> n_host_id (result ! k) = (case hid of None \<Rightarrow> None
                                   | Some h \<Rightarrow> if h \<noteq> [] then Some h else None)"
    if "k < length processed_nodes" for k
  proof -
    have "k \<in> set [0 ..< length processed_nodes]" using that by simp
    from res[THEN conjunct2, THEN conjunct1, rule_format, OF this] obtain hid where
      "extract_node_host_id frames (processed_nodes ! k) ?m hs ?cs = Inr hid"
      "n_host_id (result ! k)
         = (case hid of None \<Rightarrow> n_host_id (processed_nodes ! k)
            | Some h \<Rightarrow> if h \<noteq> [] then Some h else n_host_id (processed_nodes ! k))"
      by (elim exE conjE)
    then show ?thesis using none[OF that] by (intro exI[of _ hid]) (simp split: option.splits)
  qed
  from each[OF i] obtain hid where
    hid: "extract_node_host_id frames (processed_nodes ! i) ?m hs ?cs = Inr hid"
      "n_host_id (result ! i) = (case hid of None \<Rightarrow> None
                                 | Some h \<Rightarrow> if h \<noteq> [] then Some h else None)"
    by blast
  from hid(1) obtain f where f: "frames = Suc f" by (cases frames) auto
  have same: "result ! i = (processed_nodes ! i)\<lparr>n_host_id := n_host_id (result ! i)\<rparr>"
    using host_id_erased_eq[OF erased_nth[OF er i]] .
  have chain: "\<exists>host. hosted_by ?m hs ?cs (processed_nodes ! i) host \<and> n_id host = h"
    if "n_host_id (result ! i) = Some h" for h
  proof -
    from that hid(2) have "hid = Some h" by (auto split: option.splits if_splits)
    then show ?thesis using extract_node_host_id_hosted hid(1) by blast
  qed
  have own: "n_type (processed_nodes ! i) \<in> hs"
    if "n_host_id (result ! i) = Some (n_id (processed_nodes ! i))"
  proof -
    from chain[OF that] obtain host where
      host: "hosted_by ?m hs ?cs (processed_nodes ! i) host"
        "n_id host = n_id (processed_nodes ! i)"
      by blast
    have "host = processed_nodes ! i"
    proof (rule ccontr)
      assume ne: "host \<noteq> processed_nodes ! i"
      then obtain k where "?m k = Some host" using hosted_by_member[OF host(1)] by blast
      then obtain j where j: "node_index processed_nodes k = Some j" "host = processed_nodes ! j"
        by (auto simp: node_name_to_node_def)
      then have "j < length processed_nodes" using node_index_bound by blast
      then have "j = i"
        using host(2) j(2) ids i nth_eq_iff_index_eq[of "map n_id processed_nodes" j i] by simp
      then show False using ne j(2) by simp
    qed
    then show ?thesis using hosted_by_host_type[OF host(1)] by simp
  qed
  have is_host: "n_host_id (result ! i) = Some (n_id (processed_nodes ! i))"
    if "n_type (processed_nodes ! i) \<in> hs" "n_id (processed_nodes ! i) \<noteq> []"
  proof -
    have "extract_node_host_id frames (processed_nodes ! i) ?m hs ?cs
        = Inr (Some (n_id (processed_nodes ! i)))"
      using that(1) f by simp
    then show ?thesis using hid that(2) by simp
  qed
  have climb: "\<exists>target_id j. r_target_id rel = Some target_id
      \<and> node_index processed_nodes target_id = Some j
      \<and> n_host_id (result ! i) = n_host_id (result ! j)"
    if nh: "n_type (processed_nodes ! i) \<notin> hs"
      and rels: "n_relationships (processed_nodes ! i) = Some rels"
      and rel: "rel \<in> set rels" "r_type rel \<in> ?cs" for rels rel
  proof -
    have "length (filter (\<lambda>r. r_type r \<in> ?cs) rels) \<le> 1"
      using single rels i by (metis nth_mem)
    then have fnd: "find (\<lambda>r. r_type r \<in> ?cs) rels = Some rel"
      using find_the_only_one[of rel rels "\<lambda>r. r_type r \<in> ?cs"] rel by simp
    have unf: "extract_node_host_id frames (processed_nodes ! i) ?m hs ?cs
        = (case r_target_id rel of
             None \<Rightarrow> Inl (KeyError ''target_id'')
           | Some target_id \<Rightarrow>
               (case ?m target_id of
                  None \<Rightarrow> Inl (KeyError target_id)
                | Some target_node \<Rightarrow> extract_node_host_id f target_node ?m hs ?cs))"
      using nh rels fnd f by simp
    then obtain t where t: "r_target_id rel = Some t"
      using hid(1) by (cases "r_target_id rel") auto
    then obtain tn where tn: "?m t = Some tn"
      using hid(1) unf by (cases "?m t") auto
    then obtain j where j: "node_index processed_nodes t = Some j" "tn = processed_nodes ! j"
      by (auto simp: node_name_to_node_def)
    then have jlen: "j < length processed_nodes" using node_index_bound by blast
    have "extract_node_host_id f (processed_nodes ! j) ?m hs ?cs = Inr hid"
      using hid(1) unf t tn j by simp
    then have "extract_node_host_id frames (processed_nodes ! j) ?m hs ?cs = Inr hid"
      using extract_node_host_id_mono[of f _ _ _ _ hid frames] f by simp
    then have "n_host_id (result ! j) = n_host_id (result ! i)"
      using each[OF jlen] hid(2) by auto
    then show ?thesis using t j(1) by simp
  qed
  show ?thesis
    using hs hs_eq len same own is_host climb chain
    by (intro exI[of _ hs]) blast
qed

text \<open>
  Claim C2, as amended.  Take processed nodes with distinct ids, none of which has a
  \<open>host_id\<close> yet and each of which has at most one relationship of the contained-in
  family (more raise the error 112 before).  The host types are the declared types that
  are, or derive from, the well-known host type.

  The pass that sets \<open>host_id\<close> returns when the derivation chain of every declared type
  and the containment chain of every node end within the frames that the interpreter has
  left; it raises when the containment chain of some node does not, as on a cycle of
  contained-in relationships.

  When the pass returns, it has changed nothing but \<open>host_id\<close>, and for every node \<open>n\<close>:
  if \<open>host_id\<close> is the node's own id then its type is a host type; if its type is a host
  type and \<^emph>\<open>its id is not the empty string\<close> then \<open>host_id\<close> is its own id; if its type is
  not a host type and it has a relationship of the contained-in family, the target of
  that relationship is a node, and \<open>n\<close> has the same \<open>host_id\<close>, or the same absence of
  one, as that node; and \<open>n\<close> has a \<open>host_id\<close> only if a chain of contained-in
  relationships from \<open>n\<close> reaches a node of a host type, whose id it then is.
\<close>

theorem host_id_of_processed_nodes:
  assumes ids: "distinct (map n_id processed_nodes)"
    and fresh: "\<forall>n \<in> set processed_nodes. n_host_id n = None"
    and single: "\<forall>n \<in> set processed_nodes. \<forall>rels. n_relationships n = Some rels
                   \<longrightarrow> length (filter (\<lambda>r. r_type r \<in> contained_in_rel_types) rels) \<le> 1"
  shows "((\<forall>t \<in> fst ` set types. \<exists>k \<le> frames - 2. hierarchy_depth types t k)
          \<and> (\<forall>n \<in> set processed_nodes. \<exists>k \<le> frames.
                containment_depth (node_name_to_node processed_nodes)
                  {t \<in> fst ` set types.
                     is_derived_from (frames - 2) t types HOST_TYPE = Inr True}
                  contained_in_rel_types n k)
          \<longrightarrow> (\<exists>result. post_process_nodes_host_ids frames processed_nodes types
                            contained_in_rel_types = Inr result))
       \<and> ((\<exists>n \<in> set processed_nodes. \<forall>k \<le> frames.
              \<not> containment_depth (node_name_to_node processed_nodes)
                  {t \<in> fst ` set types.
                     is_derived_from (frames - 2) t types HOST_TYPE = Inr True}
                  contained_in_rel_types n k)
          \<longrightarrow> (\<exists>e. post_process_nodes_host_ids frames processed_nodes types
                       contained_in_rel_types = Inl e))
       \<and> (\<forall>result i.
            post_process_nodes_host_ids frames processed_nodes types contained_in_rel_types
              = Inr result
            \<and> i < length processed_nodes
            \<longrightarrow> (\<exists>host_types.
                   build_family_descendants_set (frames - 1) types HOST_TYPE = Inr host_types
                 \<and> host_types
                     = {t \<in> fst ` set types.
                          is_derived_from (frames - 2) t types HOST_TYPE = Inr True}
                 \<and> length result = length processed_nodes
                 \<and> result ! i = (processed_nodes ! i)\<lparr>n_host_id := n_host_id (result ! i)\<rparr>
                 \<and> (n_host_id (result ! i) = Some (n_id (processed_nodes ! i))
                      \<longrightarrow> n_type (processed_nodes ! i) \<in> host_types)
                 \<and> (n_type (processed_nodes ! i) \<in> host_types
                      \<and> n_id (processed_nodes ! i) \<noteq> []
                      \<longrightarrow> n_host_id (result ! i) = Some (n_id (processed_nodes ! i)))
                 \<and> (n_type (processed_nodes ! i) \<notin> host_types
                      \<longrightarrow> (\<forall>rels rel.
                             n_relationships (processed_nodes ! i) = Some rels
                             \<and> rel \<in> set rels \<and> r_type rel \<in> contained_in_rel_types
                             \<longrightarrow> (\<exists>target_id j.
                                    r_target_id rel = Some target_id
                                  \<and> node_index processed_nodes target_id = Some j
                                  \<and> n_host_id (result ! i) = n_host_id (result ! j))))
                 \<and> (\<forall>h. n_host_id (result ! i) = Some h
                      \<longrightarrow> (\<exists>host. hosted_by (node_name_to_node processed_nodes) host_types
                                     contained_in_rel_types (processed_nodes ! i) host
                                 \<and> n_id host = h))))"
proof (intro conjI allI impI)
  assume "(\<forall>t \<in> fst ` set types. \<exists>k \<le> frames - 2. hierarchy_depth types t k)
          \<and> (\<forall>n \<in> set processed_nodes. \<exists>k \<le> frames.
                containment_depth (node_name_to_node processed_nodes)
                  {t \<in> fst ` set types.
                     is_derived_from (frames - 2) t types HOST_TYPE = Inr True}
                  contained_in_rel_types n k)"
  then show "\<exists>result. post_process_nodes_host_ids frames processed_nodes types
                        contained_in_rel_types = Inr result"
    using host_ids_pass_returns[of types frames processed_nodes contained_in_rel_types]
    by (elim conjE)
next
  assume "\<exists>n \<in> set processed_nodes. \<forall>k \<le> frames.
              \<not> containment_depth (node_name_to_node processed_nodes)
                  {t \<in> fst ` set types.
                     is_derived_from (frames - 2) t types HOST_TYPE = Inr True}
                  contained_in_rel_types n k"
  then obtain n where "n \<in> set processed_nodes" "\<forall>k \<le> frames.
              \<not> containment_depth (node_name_to_node processed_nodes)
                  {t \<in> fst ` set types.
                     is_derived_from (frames - 2) t types HOST_TYPE = Inr True}
                  contained_in_rel_types n k"
    by (elim bexE)
  then show "\<exists>e. post_process_nodes_host_ids frames processed_nodes types
                   contained_in_rel_types = Inl e"
    by (rule host_ids_pass_raises)
next
  fix result i
  assume "post_process_nodes_host_ids frames processed_nodes types contained_in_rel_types
              = Inr result
            \<and> i < length processed_nodes"
  then have ok: "post_process_nodes_host_ids frames processed_nodes types
      contained_in_rel_types = Inr result" and i: "i < length processed_nodes"
    by simp_all
  show "\<exists>host_types.
                   build_family_descendants_set (frames - 1) types HOST_TYPE = Inr host_types
                 \<and> host_types
                     = {t \<in> fst ` set types.
                          is_derived_from (frames - 2) t types HOST_TYPE = Inr True}
                 \<and> length result = length processed_nodes
                 \<and> result ! i = (processed_nodes ! i)\<lparr>n_host_id := n_host_id (result ! i)\<rparr>
                 \<and> (n_host_id (result ! i) = Some (n_id (processed_nodes ! i))
                      \<longrightarrow> n_type (processed_nodes ! i) \<in> host_types)
                 \<and> (n_type (processed_nodes ! i) \<in> host_types
                      \<and> n_id (processed_nodes ! i) \<noteq> []
                      \<longrightarrow> n_host_id (result ! i) = Some (n_id (processed_nodes ! i)))
                 \<and> (n_type (processed_nodes ! i) \<notin> host_types
                      \<longrightarrow> (\<forall>rels rel.
                             n_relationships (processed_nodes ! i) = Some rels
                             \<and> rel \<in> set rels \<and> r_type rel \<in> contained_in_rel_types
                             \<longrightarrow> (\<exists>target_id j.
                                    r_target_id rel = Some target_id
                                  \<and> node_index processed_nodes target_id = Some j
                                  \<and> n_host_id (result ! i) = n_host_id (result ! j))))
                 \<and> (\<forall>h. n_host_id (result ! i) = Some h
                      \<longrightarrow> (\<exists>host. hosted_by (node_name_to_node processed_nodes) host_types
                                     contained_in_rel_types (processed_nodes ! i) host
                                 \<and> n_id host = h))"
    by (rule host_ids_pass_result[OF ok ids fresh single i])
qed

text \<open>
  Node \<open>web\<close> is contained in \<open>vm\<close>, whose type derives from the host type: all chains
  end within the frames that are left, the pass returns, and both nodes get the
  \<open>host_id\<close> \<open>vm\<close>.
\<close>

theorem host_id_of_processed_nodes_witness:
  "post_process_nodes_host_ids 10
     [example_node ''web'' ''t'' (Some [example_processed_relationship ''cin'' ''vm'']),
      example_node ''vm'' ''vmtype'' None]
     [(''cloudify.types.host'', example_type None),
      (''vmtype'', example_type (Some ''cloudify.types.host'')),
      (''t'', example_type None)]
     {''cin''}
   = Inr
       [(example_node ''web'' ''t'' (Some [example_processed_relationship ''cin'' ''vm'']))
          \<lparr>n_host_id := Some ''vm''\<rparr>,
        (example_node ''vm'' ''vmtype'' None)\<lparr>n_host_id := Some ''vm''\<rparr>]
   \<and> (\<exists>host. hosted_by
         (node_name_to_node
            [example_node ''web'' ''t'' (Some [example_processed_relationship ''cin'' ''vm'']),
             example_node ''vm'' ''vmtype'' None])
         {t \<in> fst ` set [(''cloudify.types.host'', example_type None),
                          (''vmtype'', example_type (Some ''cloudify.types.host'')),
                          (''t'', example_type None)].
            is_derived_from (10 - 2) t
              [(''cloudify.types.host'', example_type None),
               (''vmtype'', example_type (Some ''cloudify.types.host'')),
               (''t'', example_type None)] HOST_TYPE = Inr True}
         {''cin''}
         (example_node ''web'' ''t'' (Some [example_processed_relationship ''cin'' ''vm'']))
         host
       \<and> n_id host = ''vm'')"
proof -
  let ?web = "example_node ''web'' ''t'' (Some [example_processed_relationship ''cin'' ''vm''])"
  let ?vm = "example_node ''vm'' ''vmtype'' None"
  let ?nodes = "[?web, ?vm]"
  let ?types = "[(''cloudify.types.host'', example_type None),
      (''vmtype'', example_type (Some ''cloudify.types.host'')),
      (''t'', example_type None)]"
  let ?hs = "{t \<in> fst ` set ?types. is_derived_from (10 - 2) t ?types HOST_TYPE = Inr True}"
  have ids: "distinct (map n_id ?nodes)" by (simp add: example_node_def)
  have fresh: "\<forall>n \<in> set ?nodes. n_host_id n = None" by (simp add: example_node_def)
  have single: "\<forall>n \<in> set ?nodes. \<forall>rels. n_relationships n = Some rels
                   \<longrightarrow> length (filter (\<lambda>r. r_type r \<in> {''cin''}) rels) \<le> 1"
    by (auto simp: example_node_def)
  note inst = host_id_of_processed_nodes[OF ids fresh single, of ?types 10]
  have h1: "hierarchy_depth ?types ''cloudify.types.host'' (Suc 0)"
    by (rule hierarchy_depth.root[where t = "example_type None"])
      (simp_all add: example_type_def)
  have h2: "hierarchy_depth ?types ''vmtype'' (Suc (Suc 0))"
    by (rule hierarchy_depth.derived[where t = "example_type (Some ''cloudify.types.host'')",
          OF _ _ h1])
      (simp_all add: example_type_def)
  have h3: "hierarchy_depth ?types ''t'' (Suc 0)"
    by (rule hierarchy_depth.root[where t = "example_type None"])
      (simp_all add: example_type_def)
  have chains: "\<forall>t \<in> fst ` set ?types. \<exists>k \<le> 10 - 2. hierarchy_depth ?types t k"
  proof
    fix t assume "t \<in> fst ` set ?types"
    then consider "t = ''cloudify.types.host''" | "t = ''vmtype''" | "t = ''t''" by auto
    then show "\<exists>k \<le> 10 - 2. hierarchy_depth ?types t k"
    proof cases
      case 1
      then show ?thesis using h1 by (intro exI[of _ "Suc 0"]) simp
    next
      case 2
      then show ?thesis using h2 by (intro exI[of _ "Suc (Suc 0)"]) simp
    next
      case 3
      then show ?thesis using h3 by (intro exI[of _ "Suc 0"]) simp
    qed
  qed
  have vm_host: "n_type ?vm \<in> ?hs"
    by (simp add: example_node_def example_type_def HOST_TYPE_def eval_nat_numeral)
  have web_not: "n_type ?web \<notin> ?hs"
    by (simp add: example_node_def example_type_def HOST_TYPE_def eval_nat_numeral)
  have c_vm: "containment_depth (node_name_to_node ?nodes) ?hs {''cin''} ?vm (Suc 0)"
    using vm_host by (rule containment_depth.host)
  have c_web: "containment_depth (node_name_to_node ?nodes) ?hs {''cin''} ?web (Suc (Suc 0))"
    by (rule containment_depth.climb[OF web_not _ _ _ _ c_vm,
          where node_relationships = "[example_processed_relationship ''cin'' ''vm'']"
            and rel = "example_processed_relationship ''cin'' ''vm''"
            and target_id = "''vm''"])
      (simp_all add: example_node_def example_processed_relationship_def
        node_name_to_node_def node_index_def)
  have walks: "\<forall>n \<in> set ?nodes. \<exists>k \<le> 10.
      containment_depth (node_name_to_node ?nodes) ?hs {''cin''} n k"
  proof
    fix n assume "n \<in> set ?nodes"
    then consider "n = ?web" | "n = ?vm" by auto
    then show "\<exists>k \<le> 10. containment_depth (node_name_to_node ?nodes) ?hs {''cin''} n k"
    proof cases
      case 1
      then show ?thesis using c_web by (intro exI[of _ "Suc (Suc 0)"]) simp
    next
      case 2
      then show ?thesis using c_vm by (intro exI[of _ "Suc 0"]) simp
    qed
  qed
  from inst[THEN conjunct1, rule_format, OF conjI[OF chains walks]]
  have returns: "\<exists>result. post_process_nodes_host_ids 10 ?nodes ?types {''cin''} = Inr result" .
  have ok: "post_process_nodes_host_ids 10 ?nodes ?types {''cin''}
   = Inr [?web\<lparr>n_host_id := Some ''vm''\<rparr>, ?vm\<lparr>n_host_id := Some ''vm''\<rparr>]"
    by (simp add: post_process_nodes_host_ids_def build_family_descendants_set_def
        HOST_TYPE_def node_name_to_node_def node_index_def example_node_def
        example_processed_relationship_def example_type_def eval_nat_numeral)
  have i: "0 < length ?nodes" by simp
  from inst[THEN conjunct2, THEN conjunct2, rule_format, OF conjI[OF ok i]]
  have "\<exists>host. hosted_by (node_name_to_node ?nodes) ?hs {''cin''} (?nodes ! 0) host
          \<and> n_id host = ''vm''"
    by (elim exE conjE) (simp add: example_node_def)
  then show ?thesis using ok returns by simp
qed

text \<open>
  The claim as stated fails for a node whose name is the empty string: \<open>if host_id:\<close>
  treats the returned id \<open>''\<close> like \<open>None\<close>, so a node of a host type gets no \<open>host_id\<close>.
  It also fails on a cycle of contained-in relationships, which the checks on relationship
  instances admit: \<open>web\<close> is contained in \<open>db\<close> and \<open>db\<close> in \<open>web\<close>, and no type is a host
  type.  No chain reaches a node of a host type, but instead of leaving the nodes without
  \<open>host_id\<close> the pass raises, whatever the number of frames, here the whole stack of the
  interpreter as it is delivered.
\<close>

lemma containment_cycle_raises:
  "extract_node_host_id frames
     (example_node ''web'' ''t'' (Some [example_processed_relationship ''cin'' ''db'']))
     (node_name_to_node
        [example_node ''web'' ''t'' (Some [example_processed_relationship ''cin'' ''db'']),
         example_node ''db'' ''t'' (Some [example_processed_relationship ''cin'' ''web''])])
     {} {''cin''} = Inl maximum_recursion_depth_exceeded
   \<and> extract_node_host_id frames
     (example_node ''db'' ''t'' (Some [example_processed_relationship ''cin'' ''web'']))
     (node_name_to_node
        [example_node ''web'' ''t'' (Some [example_processed_relationship ''cin'' ''db'']),
         example_node ''db'' ''t'' (Some [example_processed_relationship ''cin'' ''web''])])
     {} {''cin''} = Inl maximum_recursion_depth_exceeded"
proof (induction frames)
  case 0
  show ?case by simp
next
  case (Suc frames)
  then show ?case
    by (simp add: node_name_to_node_def node_index_def example_node_def
        example_processed_relationship_def)
qed

lemma is_derived_from_unfold:
  "0 < frames \<Longrightarrow> is_derived_from frames type_name types derived_from_name =
     (if type_name = derived_from_name then Inr True
      else (case map_of types type_name of
              None \<Rightarrow> Inl (KeyError type_name)
            | Some t \<Rightarrow>
                (case derived_from t of
                   Some parent \<Rightarrow> is_derived_from (frames - 1) parent types derived_from_name
                 | None \<Rightarrow> Inr False)))"
  by (cases frames) (auto split: option.splits)

theorem host_id_empty_name_and_cycle_counterexample:
  "post_process_nodes_host_ids 1000 [example_node '''' ''vmtype'' None]
     [(''cloudify.types.host'', example_type None),
      (''vmtype'', example_type (Some ''cloudify.types.host''))] {}
   = Inr [example_node '''' ''vmtype'' None]
   \<and> n_host_id (example_node '''' ''vmtype'' None) = None
   \<and> is_derived_from 998 (n_type (example_node '''' ''vmtype'' None))
       [(''cloudify.types.host'', example_type None),
        (''vmtype'', example_type (Some ''cloudify.types.host''))] HOST_TYPE
     = Inr True
   \<and> post_process_nodes_host_ids 1000
     [example_node ''web'' ''t'' (Some [example_processed_relationship ''cin'' ''db'']),
      example_node ''db'' ''t'' (Some [example_processed_relationship ''cin'' ''web''])]
     [(''t'', example_type None)] {''cin''}
   = Inl maximum_recursion_depth_exceeded"
proof -
  have host: "is_derived_from 998 ''vmtype''
       [(''cloudify.types.host'', example_type None),
        (''vmtype'', example_type (Some ''cloudify.types.host''))] HOST_TYPE = Inr True"
    by (simp add: is_derived_from_unfold HOST_TYPE_def example_type_def)
  have root: "is_derived_from 998 ''cloudify.types.host''
       [(''cloudify.types.host'', example_type None),
        (''vmtype'', example_type (Some ''cloudify.types.host''))] HOST_TYPE = Inr True"
    by (simp add: is_derived_from_unfold HOST_TYPE_def)
  have walk: "extract_node_host_id 1000 (example_node '''' ''vmtype'' None) m
       {''cloudify.types.host'', ''vmtype''} {} = Inr (Some '''')" for m
    using extract_node_host_id.simps(2)[of 999 "example_node '''' ''vmtype'' None" m
        "{''cloudify.types.host'', ''vmtype''}" "{}"]
    by (simp add: example_node_def)
  have first: "post_process_nodes_host_ids 1000 [example_node '''' ''vmtype'' None]
     [(''cloudify.types.host'', example_type None),
      (''vmtype'', example_type (Some ''cloudify.types.host''))] {}
   = Inr [example_node '''' ''vmtype'' None]"
    using host root walk
    by (simp add: post_process_nodes_host_ids_def build_family_descendants_set_def
        insert_commute)
  have none: "is_derived_from 998 ''t'' [(''t'', example_type None)] HOST_TYPE = Inr False"
    by (simp add: is_derived_from_unfold HOST_TYPE_def example_type_def)
  have second: "post_process_nodes_host_ids 1000
     [example_node ''web'' ''t'' (Some [example_processed_relationship ''cin'' ''db'']),
      example_node ''db'' ''t'' (Some [example_processed_relationship ''cin'' ''web''])]
     [(''t'', example_type None)] {''cin''}
   = Inl maximum_recursion_depth_exceeded"
    using none containment_cycle_raises[of 1000, THEN conjunct1]
    by (simp add: post_process_nodes_host_ids_def build_family_descendants_set_def)
  show ?thesis
    using first second host by (simp add: example_node_def)
qed

section \<open>Merge policy of imports\<close>

lemma replace_ref_entries_keys:
  "replace_ref_entries apply_ref entries = Inr entries' \<Longrightarrow> map fst entries' = map fst entries"
proof (induction entries arbitrary: entries')
  case Nil
  then show ?case by simp
next
  case (Cons x entries)
  obtain k v where x: "x = (k, v)" by (cases x)
  from Cons.prems x obtain v' rest' where
    "replace_ref_entries apply_ref entries = Inr rest'" "entries' = (k, v') # rest'"
    by (auto split: sum.splits if_splits)
  then show ?case using Cons.IH x by simp
qed

lemma merge_imported_dsl_append:
  "merge_imported_dsl (pre @ rest) combined =
     (case merge_imported_dsl pre combined of
        Inl e \<Rightarrow> Inl e
      | Inr c1 \<Rightarrow> merge_imported_dsl rest c1)"
proof (induction pre arbitrary: combined)
  case Nil
  then show ?case by simp
next
  case (Cons x pre)
  obtain k v where x: "x = (k, v)" by (cases x)
  show ?case using Cons.IH x by (auto split: option.splits sum.splits)
qed

lemma merge_entries_on_dict:
  assumes "distinct (map fst from_dict)"
  shows "merge_entries_or_throw_on_duplicate from_dict (YDict to_dict) top_level_key path =
     (case find (\<lambda>(k, v). k \<in> fst ` set to_dict) from_dict of
        Some (k, v) \<Rightarrow> Inl (DSLParsingLogicException 4 (top_level_key # path @ [k]))
      | None \<Rightarrow> Inr (YDict (fold (\<lambda>(k, v). AList.update k v) from_dict to_dict)))"
  using assms
proof (induction from_dict arbitrary: to_dict)
  case Nil
  then show ?case by simp
next
  case (Cons x from_dict)
  obtain k v where x: "x = (k, v)" by (cases x)
  show ?case
  proof (cases "k \<in> fst ` set to_dict")
    case True
    then show ?thesis using x by simp
  next
    case False
    have notin: "k \<notin> fst ` set from_dict" using Cons.prems x by simp
    have "find (\<lambda>(k', v'). k' \<in> fst ` set (AList.update k v to_dict)) from_dict
        = find (\<lambda>(k', v'). k' \<in> fst ` set to_dict) from_dict"
      using notin by (intro find_cong) (force simp: dom_update)+
    then show ?thesis using False x Cons.IH[of "AList.update k v to_dict"] Cons.prems
      by (simp split: option.splits)
  qed
qed

lemma map_of_fold_update:
  assumes "distinct (map fst from_dict)"
  shows "map_of (fold (\<lambda>(k, v). AList.update k v) from_dict to_dict)
         = map_of to_dict ++ map_of from_dict"
  using assms
proof (induction from_dict arbitrary: to_dict)
  case Nil
  then show ?case by simp
next
  case (Cons x from_dict)
  obtain k v where x: "x = (k, v)" by (cases x)
  have notin: "map_of from_dict k = None"
    using Cons.prems x by (simp add: map_of_eq_None_iff)
  have "map_of (fold (\<lambda>(k, v). AList.update k v) (x # from_dict) to_dict)
      = (map_of to_dict)(k \<mapsto> v) ++ map_of from_dict"
    using Cons.IH[of "AList.update k v to_dict"] Cons.prems x
    by (simp add: update_conv' fun_upd_def)
  also have "\<dots> = map_of to_dict ++ map_of (x # from_dict)"
    using notin x by (auto simp: map_add_def fun_eq_iff split: option.splits)
  finally show ?case .
qed

lemma update_absent_key:
  "k \<notin> fst ` set al \<Longrightarrow> AList.update k v al = al @ [(k, v)]"
  by (induction al) auto

lemma combine_imports_no_imports:
  assumes "combine_imports apply_ref parsed_dsl dsl_location ordered_imports = Inr result"
  shows "IMPORTS \<notin> fst ` set result"
proof -
  from assms obtain combined0 where
    c0: "replace_ref_entries (apply_ref dsl_location) parsed_dsl = Inr combined0"
    by (auto simp: combine_imports_def split: sum.splits)
  from assms c0 obtain dsl_version where v: "map_of parsed_dsl VERSION = Some dsl_version"
    by (auto simp: combine_imports_def split: option.splits)
  show ?thesis
  proof (cases "IMPORTS \<in> fst ` set parsed_dsl")
    case False
    then have "result = combined0" using assms c0 v by (simp add: combine_imports_def)
    moreover have "fst ` set combined0 = fst ` set parsed_dsl"
      using replace_ref_entries_keys[OF c0] by (metis image_set)
    ultimately show ?thesis using False by simp
  next
    case True
    then obtain c where "result = AList.delete IMPORTS c"
      using assms c0 v by (auto simp: combine_imports_def split: sum.splits)
    then show ?thesis by (simp add: delete_notin_dom)
  qed
qed

text \<open>
  Claim C5.  In the step that merges an imported document into the combined document,
  take a top-level key of the import such that the keys before it are merged without
  error.  The key \<open>imports\<close> is skipped.  A key that the combined document does not have
  is added with its value.  For a key of the white list that the combined document has,
  both values being dictionaries: if an entry of the import is already an entry of the
  combined section, the step raises the logic error 4 with the key and the first such
  entry as conflict path, and otherwise the section becomes the union of the entries.  Any
  other key that the combined document has raises the logic error 3 with that key.  And
  whenever \<open>_combine_imports\<close> returns a document, it has no key \<open>imports\<close>.
\<close>

theorem import_merge_policy:
  "(\<forall>c1. merge_imported_dsl pre combined = Inr c1 \<longrightarrow>
      (key = IMPORTS \<longrightarrow>
         merge_imported_dsl (pre @ (key, val) # post) combined = merge_imported_dsl post c1)
    \<and> (key \<noteq> IMPORTS \<and> key \<notin> fst ` set c1 \<longrightarrow>
         merge_imported_dsl (pre @ (key, val) # post) combined
           = merge_imported_dsl post (c1 @ [(key, val)]))
    \<and> (key \<noteq> IMPORTS \<and> key \<in> merge_no_override \<longrightarrow>
         (\<forall>to_dict from_dict.
            map_of c1 key = Some (YDict to_dict) \<and> val = YDict from_dict
            \<and> distinct (map fst from_dict) \<longrightarrow>
              (\<forall>k v. find (\<lambda>(k, v). k \<in> fst ` set to_dict) from_dict = Some (k, v) \<longrightarrow>
                 merge_imported_dsl (pre @ (key, val) # post) combined
                   = Inl (DSLParsingLogicException 4 [key, k]))
            \<and> (find (\<lambda>(k, v). k \<in> fst ` set to_dict) from_dict = None \<longrightarrow>
                 (\<exists>merged. map_of merged = map_of to_dict ++ map_of from_dict
                    \<and> merge_imported_dsl (pre @ (key, val) # post) combined
                        = merge_imported_dsl post (AList.update key (YDict merged) c1)))))
    \<and> (key \<noteq> IMPORTS \<and> key \<in> fst ` set c1 \<and> key \<notin> merge_no_override \<longrightarrow>
         merge_imported_dsl (pre @ (key, val) # post) combined
           = Inl (DSLParsingLogicException 3 [key])))
   \<and> (\<forall>result. combine_imports apply_ref parsed_dsl dsl_location ordered_imports = Inr result
         \<longrightarrow> IMPORTS \<notin> fst ` set result)"
proof (intro conjI allI impI)
  fix result
  assume "combine_imports apply_ref parsed_dsl dsl_location ordered_imports = Inr result"
  then show "IMPORTS \<notin> fst ` set result" by (rule combine_imports_no_imports)
next
  fix c1 assume c1: "merge_imported_dsl pre combined = Inr c1"
  have step: "merge_imported_dsl (pre @ (key, val) # post) combined
      = merge_imported_dsl ((key, val) # post) c1"
    using c1 by (simp add: merge_imported_dsl_append)
  {
    assume "key = IMPORTS"
    then show "merge_imported_dsl (pre @ (key, val) # post) combined
        = merge_imported_dsl post c1"
      using step by simp
  }
  {
    assume a: "key \<noteq> IMPORTS \<and> key \<notin> fst ` set c1"
    then have "map_of c1 key = None" by (simp add: map_of_eq_None_iff)
    moreover have "AList.update key val c1 = c1 @ [(key, val)]"
      using a by (simp add: update_absent_key)
    ultimately show "merge_imported_dsl (pre @ (key, val) # post) combined
        = merge_imported_dsl post (c1 @ [(key, val)])"
      using step a by simp
  }
  {
    assume a: "key \<noteq> IMPORTS \<and> key \<in> fst ` set c1 \<and> key \<notin> merge_no_override"
    then obtain existing where "map_of c1 key = Some existing"
      using map_of_eq_None_iff[of c1 key] by (cases "map_of c1 key") auto
    then show "merge_imported_dsl (pre @ (key, val) # post) combined
        = Inl (DSLParsingLogicException 3 [key])"
      using step a by simp
  }
  {
    fix to_dict from_dict
    assume w: "key \<noteq> IMPORTS \<and> key \<in> merge_no_override"
      and d: "map_of c1 key = Some (YDict to_dict) \<and> val = YDict from_dict
            \<and> distinct (map fst from_dict)"
    have m: "merge_into_dict_or_throw_on_duplicate val (YDict to_dict) key [] =
       (case find (\<lambda>(k, v). k \<in> fst ` set to_dict) from_dict of
          Some (k, v) \<Rightarrow> Inl (DSLParsingLogicException 4 [key, k])
        | None \<Rightarrow> Inr (YDict (fold (\<lambda>(k, v). AList.update k v) from_dict to_dict)))"
      using d merge_entries_on_dict[of from_dict to_dict key "[]"]
      by (simp add: merge_into_dict_or_throw_on_duplicate_def split: option.splits)
    {
      fix k v assume "find (\<lambda>(k, v). k \<in> fst ` set to_dict) from_dict = Some (k, v)"
      then show "merge_imported_dsl (pre @ (key, val) # post) combined
          = Inl (DSLParsingLogicException 4 [key, k])"
        using step w d m by simp
    }
    {
      assume "find (\<lambda>(k, v). k \<in> fst ` set to_dict) from_dict = None"
      then have "merge_imported_dsl (pre @ (key, val) # post) combined
          = merge_imported_dsl post
              (AList.update key (YDict (fold (\<lambda>(k, v). AList.update k v) from_dict to_dict)) c1)"
        using step w d m by simp
      then show "\<exists>merged. map_of merged = map_of to_dict ++ map_of from_dict
          \<and> merge_imported_dsl (pre @ (key, val) # post) combined
              = merge_imported_dsl post (AList.update key (YDict merged) c1)"
        using map_of_fold_update[of from_dict to_dict] d by blast
    }
  }
qed


text \<open>
  A blueprint with the plugin \<open>p\<close> imports a document with the plugin \<open>q\<close> and a workflows
  section: the plugins are united, the workflows are added and \<open>imports\<close> is gone.  An
  import that declares \<open>p\<close> again raises 4, one with node templates raises 3.
\<close>

theorem import_merge_policy_witness:
  "combine_imports no_refs example_blueprint None
     (Inr [(''a.yaml'',
            Inr [(''imports'', YList []), (''plugins'', YDict [(''q'', YDict [])]),
                 (''workflows'', YDict [])])])
   = Inr [(''tosca_definitions_version'', YStr ''cloudify_dsl_1_0''),
          (''plugins'', YDict [(''p'', YDict []), (''q'', YDict [])]),
          (''node_templates'', YDict []),
          (''workflows'', YDict [])]
   \<and> merge_imported_dsl [(''plugins'', YDict [(''q'', YDict []), (''p'', YDict [])])]
       example_blueprint
     = Inl (DSLParsingLogicException 4 [''plugins'', ''p''])
   \<and> merge_imported_dsl [(''node_templates'', YDict [])] example_blueprint
     = Inl (DSLParsingLogicException 3 [''node_templates''])"
proof -
  have pre: "merge_imported_dsl [] example_blueprint = Inr example_blueprint" by simp
  note policy = import_merge_policy[of "[]" example_blueprint _ _ "[]" no_refs
      example_blueprint None "Inr []", THEN conjunct1, rule_format, OF pre]
  have dup: "merge_imported_dsl [(''plugins'', YDict [(''q'', YDict []), (''p'', YDict [])])]
       example_blueprint
     = Inl (DSLParsingLogicException 4 [''plugins'', ''p''])"
    using policy[of "''plugins''" "YDict [(''q'', YDict []), (''p'', YDict [])]",
        THEN conjunct2, THEN conjunct2, THEN conjunct1, rule_format,
        of "[(''p'', YDict [])]" "[(''q'', YDict []), (''p'', YDict [])]",
        THEN conjunct1, rule_format, of "''p''" "YDict []"]
    by (simp add: IMPORTS_def merge_no_override_def example_blueprint_def)
  have other: "merge_imported_dsl [(''node_templates'', YDict [])] example_blueprint
     = Inl (DSLParsingLogicException 3 [''node_templates''])"
    using policy[of "''node_templates''" "YDict []",
        THEN conjunct2, THEN conjunct2, THEN conjunct2]
    by (simp add: IMPORTS_def merge_no_override_def example_blueprint_def)
  have all: "combine_imports no_refs example_blueprint None
     (Inr [(''a.yaml'',
            Inr [(''imports'', YList []), (''plugins'', YDict [(''q'', YDict [])]),
                 (''workflows'', YDict [])])])
   = Inr [(''tosca_definitions_version'', YStr ''cloudify_dsl_1_0''),
          (''plugins'', YDict [(''p'', YDict []), (''q'', YDict [])]),
          (''node_templates'', YDict []),
          (''workflows'', YDict [])]"
    by (simp add: combine_imports_def example_blueprint_def VERSION_def IMPORTS_def
        merge_no_override_def merge_into_dict_or_throw_on_duplicate_def)
  show ?thesis using all dup other by simp
qed


section \<open>Round trip of the function validator\<close>

lemma get_property_differs: "PGetProperty v n p \<noteq> v"
  by (induction v arbitrary: n p) auto

lemma validate_handler_collecting: "collecting (validate_handler fm)"
  unfolding collecting_def validate_handler_def
  by (auto split: option.splits parsed_function.splits)

lemma scan_round_trip:
  "collecting h \<Longrightarrow> only_raw v \<Longrightarrow> scan_properties h v s = Inr (v1, s1)
   \<Longrightarrow> (\<exists>new. s1 = s @ new \<and> (new = [] \<longrightarrow> v1 = v))
     \<and> (\<forall>raw n p. v1 \<noteq> PGetProperty raw n p)
     \<and> scan_properties replace_with_raw_function v1 () = Inr (v, ())"
  "collecting h \<Longrightarrow> \<forall>i \<in> set items. only_raw i \<Longrightarrow> scan_items h items s = Inr (items1, s1)
   \<Longrightarrow> (\<exists>new. s1 = s @ new \<and> (new = [] \<longrightarrow> items1 = items))
     \<and> scan_items replace_with_raw_function items1 () = Inr (items, ())"
  "collecting h \<Longrightarrow> \<forall>e \<in> set entries. only_raw (snd e)
   \<Longrightarrow> scan_entries h entries s = Inr (entries1, s1)
   \<Longrightarrow> (\<exists>new. s1 = s @ new \<and> (new = [] \<longrightarrow> entries1 = entries))
     \<and> scan_entries replace_with_raw_function entries1 () = Inr (entries, ())"
proof (induction h v s and h items s and h entries s
    arbitrary: v1 s1 and items1 s1 and entries1 s1
    rule: scan_properties_scan_items_scan_entries.induct)
  case (1 handler entries s)
  from "1.prems"(3) obtain entries1 where
    e: "scan_entries handler entries s = Inr (entries1, s1)" "v1 = PDict entries1"
    by (auto split: sum.splits)
  from "1.IH"[OF "1.prems"(1) _ e(1)] "1.prems"(2) e(2)
  show ?case by auto
next
  case (2 handler items s)
  from "2.prems"(3) obtain items1 where
    e: "scan_items handler items s = Inr (items1, s1)" "v1 = PList items1"
    by (auto split: sum.splits)
  from "2.IH"[OF "2.prems"(1) _ e(1)] "2.prems"(2) e(2)
  show ?case by auto
next
  case (3 handler s)
  then show ?case by auto
next
  case (4 handler b s)
  then show ?case by auto
next
  case (5 handler i s)
  then show ?case by auto
next
  case (6 handler x s)
  then show ?case by auto
next
  case (7 handler raw node_name path s)
  then show ?case by auto
next
  case (8 handler s)
  then show ?case by auto
next
  case (9 handler item items s)
  from "9.prems"(3) obtain result sa where h: "handler item s = Inr (result, sa)"
    by (auto split: sum.splits)
  from "9.prems"(3) h obtain item' sb where
    mid: "(if result \<noteq> item then Inr (result, sa)
           else scan_properties handler item sa) = Inr (item', sb)"
    by (auto split: sum.splits)
  from "9.prems"(3) h mid obtain items' where
    rest: "scan_items handler items sb = Inr (items', s1)" and i1: "items1 = item' # items'"
    by (auto split: sum.splits)
  have raw: "only_raw item" "\<forall>i \<in> set items. only_raw i" using "9.prems"(2) by auto
  from "9.IH"(2)[OF h refl mid refl "9.prems"(1) raw(2) rest]
  obtain new2 where r2: "s1 = sb @ new2" "new2 = [] \<longrightarrow> items' = items"
    "scan_items replace_with_raw_function items' () = Inr (items, ())"
    by auto
  show ?case
  proof (cases "result = item")
    case True
    then have sa: "sa = s"
      using "9.prems"(1) h get_property_differs unfolding collecting_def by metis
    from True mid have sc: "scan_properties handler item sa = Inr (item', sb)" by simp
    from "9.IH"(1)[OF h refl _ "9.prems"(1) raw(1) sc] True
    obtain new1 where r1: "sb = sa @ new1" "new1 = [] \<longrightarrow> item' = item"
      "\<forall>raw n p. item' \<noteq> PGetProperty raw n p"
      "scan_properties replace_with_raw_function item' () = Inr (item, ())"
      by auto
    have keep: "replace_with_raw_function item' () = Inr (item', ())"
      using r1(3) by (cases item') (auto simp: replace_with_raw_function_def)
    show ?thesis
      using r1 r2 sa i1 keep by auto
  next
    case False
    then obtain n p where gp: "result = PGetProperty item n p" "sa = s @ [result]"
      using "9.prems"(1) h unfolding collecting_def by metis
    from False mid have same: "item' = result" "sb = sa" by auto
    have restore: "replace_with_raw_function item' () = Inr (item, ())"
      using same gp by (simp add: replace_with_raw_function_def)
    have ne: "item \<noteq> item'" using same gp get_property_differs by metis
    show ?thesis
      using r2 gp same i1 restore ne by auto
  qed
next
  case (10 handler s)
  then show ?case by auto
next
  case (11 handler key val entries s)
  from "11.prems"(3) obtain result sa where h: "handler val s = Inr (result, sa)"
    by (auto split: sum.splits)
  from "11.prems"(3) h obtain val' sb where
    mid: "(if result \<noteq> val then Inr (result, sa)
           else scan_properties handler val sa) = Inr (val', sb)"
    by (auto split: sum.splits)
  from "11.prems"(3) h mid obtain entries' where
    rest: "scan_entries handler entries sb = Inr (entries', s1)"
    and e1: "entries1 = (key, val') # entries'"
    by (auto split: sum.splits)
  have raw: "only_raw val" "\<forall>e \<in> set entries. only_raw (snd e)" using "11.prems"(2) by auto
  from "11.IH"(2)[OF h refl mid refl "11.prems"(1) raw(2) rest]
  obtain new2 where r2: "s1 = sb @ new2" "new2 = [] \<longrightarrow> entries' = entries"
    "scan_entries replace_with_raw_function entries' () = Inr (entries, ())"
    by auto
  show ?case
  proof (cases "result = val")
    case True
    then have sa: "sa = s"
      using "11.prems"(1) h get_property_differs unfolding collecting_def by metis
    from True mid have sc: "scan_properties handler val sa = Inr (val', sb)" by simp
    from "11.IH"(1)[OF h refl _ "11.prems"(1) raw(1) sc] True
    obtain new1 where r1: "sb = sa @ new1" "new1 = [] \<longrightarrow> val' = val"
      "\<forall>raw n p. val' \<noteq> PGetProperty raw n p"
      "scan_properties replace_with_raw_function val' () = Inr (val, ())"
      by auto
    have keep: "replace_with_raw_function val' () = Inr (val', ())"
      using r1(3) by (cases val') (auto simp: replace_with_raw_function_def)
    show ?thesis
      using r1 r2 sa e1 keep by auto
  next
    case False
    then obtain n p where gp: "result = PGetProperty val n p" "sa = s @ [result]"
      using "11.prems"(1) h unfolding collecting_def by metis
    from False mid have same: "val' = result" "sb = sa" by auto
    have restore: "replace_with_raw_function val' () = Inr (val, ())"
      using same gp by (simp add: replace_with_raw_function_def)
    have ne: "val \<noteq> val'" using same gp get_property_differs by metis
    show ?thesis
      using r2 gp same e1 restore ne by auto
  qed
qed

text \<open>
  Claim C7.  Let the plan hold only raw leaves, as a plan does before validation.  If the
  function validator completes without error, the plan it leaves is the plan it was
  given: every leaf that the first scan replaced by a function instance has its raw
  original form again, so the plan holds no function instance.  (The scan and the
  registry of functions are modelled from the specification.)
\<close>

theorem validate_functions_round_trip:
  assumes "only_raw plan" and "validate_functions depth fm plan = Some (Inr plan')"
  shows "plan' = plan \<and> only_raw plan'"
proof -
  from assms(2) obtain plan1 gps where
    first: "scan_properties (validate_handler fm) plan [] = Inr (plan1, gps)"
    by (auto simp: validate_functions_def scan_service_template_def split: sum.splits)
  note rt = scan_round_trip(1)[OF validate_handler_collecting assms(1) first]
  have "plan' = plan"
  proof (cases "gps = []")
    case True
    then have "plan' = plan1"
      using assms(2) first by (simp add: validate_functions_def scan_service_template_def)
    then show ?thesis using rt True by auto
  next
    case False
    then have "scan_properties replace_with_raw_function plan1 () = Inr (plan', ())"
      using assms(2) first
      by (auto simp: validate_functions_def scan_service_template_def
          split: sum.splits option.splits)
    then show ?thesis using rt by simp
  qed
  then show ?thesis using assms(1) by simp
qed

text \<open>
  A plan with an output that uses \<open>get_property\<close> and one that uses \<open>get_input\<close>: the
  validator completes within depth 2 and returns the plan unchanged.
\<close>

theorem validate_functions_round_trip_witness:
  "validate_functions 2 example_functions example_plan = Some (Inr example_plan)
   \<and> only_raw example_plan"
proof -
  have raw: "only_raw example_plan" by (simp add: example_plan_def)
  have ok: "validate_functions 2 example_functions example_plan = Some (Inr example_plan)"
    by (simp add: validate_functions_def scan_service_template_def validate_handler_def
        replace_with_raw_function_def get_property_id_def example_functions_def
        example_plan_def numeral_2_eq_2)
  show ?thesis using validate_functions_round_trip[OF raw ok] ok by simp
qed


end
